theory Spec2Isabelle
  imports Complex_Main
begin

section \<open>ChunkSparseMatrix: a shallow embedding of chunk\_sparse\_matrix.templates.h\<close>

text \<open>
  The class template \<open>ChunkSparseMatrix<number>\<close> stores a sparse matrix as dense
  \<open>chunk_size \<times> chunk_size\<close> blocks. This theory translates the member functions of
  \<^verbatim>\<open>include/deal.II/lac/chunk_sparse_matrix.templates.h\<close> into HOL functions and proves
  properties of them.

  Conventions of the embedding:
  \<^item> the template parameter \<open>number\<close> is a type variable \<open>'a\<close> of a commutative ring
    (exact arithmetic; the norms, which need a square root, are over \<open>real\<close>);
  \<^item> \<open>size_type\<close> and \<open>unsigned int\<close> values are natural numbers: every index and
    size that the pattern or the caller supplies is taken to fit its machine type. Where
    the source computes the length of the value array as a \<open>std::size_t\<close> product
    and stores it in an \<open>unsigned int\<close> or a \<open>size_type\<close> (\<open>matrix_size\<close>,
    \<open>grain_size\<close> and \<open>N\<close>), the conversion is written out, so that the
    length wraps as it does in the code;
  \<^item> a failed \<open>Assert\<close> or \<open>AssertThrow\<close> is the result \<open>Inl exc\<close> (the
    embedding is of the debug build, where \<open>Assert\<close> is checked);
  \<^item> a raw pointer access outside its array, a null dereference and a division by zero
    are the result \<open>Inl UndefinedBehaviour\<close>;
  \<^item> a pointer to a \<open>ChunkSparsityPattern\<close> is an address, the objects live in a store,
    and pointer comparison is comparison of addresses;
  \<^item> vectors passed by reference live in a store of their own, so that aliasing of
    arguments is visible.
\<close>

subsection \<open>Errors\<close>

datatype error =
    ExcNeedsSparsityPattern
  | ExcNotInitialized
  | ExcNotCompressed
  | ExcScalarAssignmentOnlyForZeroValue
  | ExcDimensionMismatch nat nat
  | ExcSourceEqualsDestination
  | ExcDifferentChunkSparsityPatterns
  | ExcInternalError
  | ExcIndexRange nat nat
  | ExcInvalidIndex nat nat
  | ExcMessage
  | ExcIO
  | UndefinedBehaviour

definition bind_err :: "error + 'a \<Rightarrow> ('a \<Rightarrow> error + 'b) \<Rightarrow> error + 'b" where
  "bind_err r f = (case r of Inl e \<Rightarrow> Inl e | Inr x \<Rightarrow> f x)"

text \<open>\<open>p[i]\<close> through a raw pointer into an array of known extent.\<close>

definition rd :: "'a list \<Rightarrow> nat \<Rightarrow> error + 'a" where
  "rd xs i = (if i < length xs then Inr (xs ! i) else Inl UndefinedBehaviour)"

text \<open>\<open>*p op= x\<close> through a raw pointer.\<close>

definition upd :: "'a list \<Rightarrow> nat \<Rightarrow> ('a \<Rightarrow> 'a) \<Rightarrow> error + 'a list" where
  "upd xs i f = (if i < length xs then Inr (xs[i := f (xs ! i)]) else Inl UndefinedBehaviour)"

text \<open>
  Modelled from the spec: \<open>Vector::operator()\<close>, the bounds-checked indexing of the
  vector collaborator (the class is not part of this file). Out of range it raises an
  index-range error.
\<close>

definition vec_at :: "'a list \<Rightarrow> nat \<Rightarrow> error + 'a" where
  "vec_at v i = (if i < length v then Inr (v ! i) else Inl (ExcIndexRange i (length v)))"

definition vec_upd :: "'a list \<Rightarrow> nat \<Rightarrow> ('a \<Rightarrow> 'a) \<Rightarrow> error + 'a list" where
  "vec_upd v i f =
     (if i < length v then Inr (v[i := f (v ! i)]) else Inl (ExcIndexRange i (length v)))"

text \<open>A counted \<open>for\<close> loop whose body may fail: the indices in order, the state threaded.\<close>

fun for_loop :: "nat list \<Rightarrow> (nat \<Rightarrow> 's \<Rightarrow> error + 's) \<Rightarrow> 's \<Rightarrow> error + 's" where
  "for_loop [] body s = Inr s"
| "for_loop (i # is) body s =
     (case body i s of Inl e \<Rightarrow> Inl e | Inr s' \<Rightarrow> for_loop is body s')"

subsection \<open>The chunk sparsity pattern (external collaborator)\<close>

text \<open>
  Modelled from the spec: the classes \<open>SparsityPattern\<close> and \<open>ChunkSparsityPattern\<close> are
  not part of this file. The records hold what the matrix reads from them: the reduced
  (chunk-level) pattern with its compressed row storage, and the logical dimensions and
  chunk size. \<open>pat_empty\<close> is the result of \<open>empty()\<close>.
\<close>

record SparsityPattern =
  sp_rows :: nat
  sp_cols :: nat
  rowstart :: "nat list"
  colnums :: "nat list"
  compressed :: bool

record ChunkSparsityPattern =
  n_rows :: nat
  n_cols :: nat
  chunk_size :: nat
  sparsity_pattern :: SparsityPattern
  pat_empty :: bool

text \<open>
  Modelled from the spec: \<open>SparsityPattern::n_nonzero_elements()\<close>, the total number of
  stored chunk positions.
\<close>

definition n_nonzero_elements :: "SparsityPattern \<Rightarrow> nat" where
  "n_nonzero_elements sp = length (colnums sp)"

text \<open>The length of the value array that a pattern requires.\<close>

definition required_len :: "ChunkSparsityPattern \<Rightarrow> nat" where
  "required_len P =
     n_nonzero_elements (sparsity_pattern P) * chunk_size P * chunk_size P"

subsection \<open>The environment of a call\<close>

text \<open>
  \<open>patterns\<close> is the store of pattern objects. \<open>minimum_parallel_grain_size\<close> is the
  constant of that name (defined with \<open>SparseMatrix\<close>, not in this file). \<open>schedule\<close> is
  the task scheduler's choice of where to cut a range into subranges.
\<close>

record env =
  patterns :: "nat \<Rightarrow> ChunkSparsityPattern option"
  minimum_parallel_grain_size :: nat
  schedule :: "nat list"

text \<open>
  Modelled from the spec: \<open>parallel::apply_to_subranges\<close> splits \<open>[begin, end)\<close> into
  contiguous subranges and runs the function on each of them; the subranges write
  disjoint parts of the destination, so running them one after the other gives the
  result of running them concurrently. The list gives the lengths of the subranges the
  scheduler cuts off, front to back; the grain size is only a hint to it.
\<close>

fun apply_to_subranges ::
  "nat list \<Rightarrow> nat \<Rightarrow> nat \<Rightarrow> (nat \<Rightarrow> nat \<Rightarrow> 's \<Rightarrow> error + 's) \<Rightarrow> nat \<Rightarrow> 's \<Rightarrow> error + 's"
where
  "apply_to_subranges [] begin_i end_i f grain_size s = f begin_i end_i s"
| "apply_to_subranges (k # ks) begin_i end_i f grain_size s =
     (if 0 < k \<and> begin_i + k < end_i
      then (case f begin_i (begin_i + k) s of
              Inl e \<Rightarrow> Inl e
            | Inr s' \<Rightarrow> apply_to_subranges ks (begin_i + k) end_i f grain_size s')
      else f begin_i end_i s)"

subsection \<open>The matrix object\<close>

text \<open>
  The data members: \<open>cols\<close> (pointer to the pattern, \<open>None\<close> is \<open>nullptr\<close>), \<open>val\<close>
  (the owned array, \<open>None\<close> is \<open>nullptr\<close>; the list is the whole allocated array) and
  \<open>max_len\<close>. \<open>allocations\<close> is not a member: it counts the calls of
  \<open>std::make_unique<number[]>\<close> made for this object, so that reallocation can be
  observed.
\<close>

record 'a ChunkSparseMatrix =
  cols :: "nat option"
  val :: "'a list option"
  max_len :: nat
  allocations :: nat

text \<open>\<open>ChunkSparseMatrix()\<close>\<close>

definition ChunkSparseMatrix_default :: "'a ChunkSparseMatrix" where
  "ChunkSparseMatrix_default =
     \<lparr>cols = None, val = None, max_len = 0, allocations = 0\<rparr>"

text \<open>
  The conversion of an unsigned value to \<open>unsigned int\<close>: the value modulo \<open>2\<^sup>3\<^sup>2\<close>.
  \<open>size_type\<close> is \<open>types::global_dof_index\<close>, which is \<open>unsigned int\<close> unless
  the library is configured for 64-bit indices, so the conversion to \<open>size_type\<close> is
  the same.
\<close>

definition to_unsigned_int :: "nat \<Rightarrow> nat" where
  "to_unsigned_int x = x mod 2 ^ 32"

text \<open>\<open>zero_subrange\<close>: \<open>memset(dst + begin, 0, (end - begin) * sizeof(T))\<close>\<close>

definition zero_subrange :: "nat \<Rightarrow> nat \<Rightarrow> 'a::zero list \<Rightarrow> error + 'a list" where
  "zero_subrange begin_i end_i dst =
     (if begin_i \<le> end_i \<and> end_i \<le> length dst
      then Inr (take begin_i dst @ replicate (end_i - begin_i) 0 @ drop end_i dst)
      else Inl UndefinedBehaviour)"

text \<open>
  \<open>operator=(const double d)\<close>. \<open>matrix_size\<close> and \<open>grain_size\<close> are
  \<open>unsigned int\<close>, and so are the operands of the sum and the product that give the
  grain size.
\<close>

definition assign_scalar ::
  "env \<Rightarrow> real \<Rightarrow> 'a::zero ChunkSparseMatrix \<Rightarrow> error + 'a ChunkSparseMatrix"
where
  "assign_scalar env d M =
     (if d \<noteq> 0 then Inl ExcScalarAssignmentOnlyForZeroValue
      else case cols M of
        None \<Rightarrow> Inl ExcNeedsSparsityPattern
      | Some a \<Rightarrow>
         (case patterns env a of
            None \<Rightarrow> Inl UndefinedBehaviour
          | Some P \<Rightarrow>
             if \<not> (compressed (sparsity_pattern P) \<or> pat_empty P) then Inl ExcNotCompressed
             else
               let matrix_size =
                     to_unsigned_int
                       (n_nonzero_elements (sparsity_pattern P) * chunk_size P * chunk_size P)
               in
               if n_rows P = 0 then Inl UndefinedBehaviour
               else
                 let grain_size =
                       to_unsigned_int
                         (minimum_parallel_grain_size env
                          * to_unsigned_int (matrix_size + n_rows P)) div n_rows P
                 in
                 if matrix_size > grain_size then
                   (case val M of
                      None \<Rightarrow> Inl UndefinedBehaviour
                    | Some buf \<Rightarrow>
                       bind_err
                         (apply_to_subranges (schedule env) 0 matrix_size
                            zero_subrange grain_size buf)
                         (\<lambda>buf'. Inr (M\<lparr>val := Some buf'\<rparr>)))
                 else if matrix_size > 0 then
                   (case val M of
                      None \<Rightarrow> Inl UndefinedBehaviour
                    | Some buf \<Rightarrow>
                       bind_err (zero_subrange 0 matrix_size buf)
                         (\<lambda>buf'. Inr (M\<lparr>val := Some buf'\<rparr>)))
                 else Inr M))"

text \<open>
  \<open>reinit(const ChunkSparsityPattern &sparsity)\<close>. \<open>N\<close> is a \<open>size_type\<close>. A new
  array from \<open>std::make_unique<number[]>(N)\<close> is value-initialised, that is, all zero.
\<close>

definition reinit ::
  "env \<Rightarrow> nat \<Rightarrow> 'a::zero ChunkSparseMatrix \<Rightarrow> error + 'a ChunkSparseMatrix"
where
  "reinit env sparsity M =
     (case patterns env sparsity of
        None \<Rightarrow> Inl UndefinedBehaviour
      | Some P \<Rightarrow>
         let M1 = M\<lparr>cols := Some sparsity\<rparr> in
         if pat_empty P then Inr (M1\<lparr>val := None, max_len := 0\<rparr>)
         else
           let N = to_unsigned_int
                     (n_nonzero_elements (sparsity_pattern P) * chunk_size P * chunk_size P);
               M2 = (if N > max_len M1 \<or> max_len M1 = 0
                     then M1\<lparr>val := Some (replicate N 0), max_len := N,
                             allocations := allocations M1 + 1\<rparr>
                     else M1)
           in assign_scalar env 0 M2)"

text \<open>\<open>clear()\<close>\<close>

definition clear :: "'a ChunkSparseMatrix \<Rightarrow> 'a ChunkSparseMatrix" where
  "clear M = M\<lparr>cols := None, val := None, max_len := 0\<rparr>"

subsection \<open>Norms\<close>

text \<open>\<open>numbers::NumberTraits<number>::abs_square\<close> for a real number type.\<close>

definition abs_square :: "real \<Rightarrow> real" where
  "abs_square x = x * x"

text \<open>
  The loop of \<open>frobenius_norm\<close>:
  \<open>for (ptr = val.get(); ptr != val.get() + max_len; ++ptr) norm_sqr += abs_square(*ptr)\<close>.
  The pointer is its offset from \<open>val.get()\<close>; the array is empty when \<open>val\<close> is null.
\<close>

function frobenius_loop :: "real list \<Rightarrow> nat \<Rightarrow> nat \<Rightarrow> real \<Rightarrow> error + real" where
  "frobenius_loop buf ptr stop norm_sqr =
     (if ptr = stop then Inr norm_sqr
      else if ptr < length buf
           then frobenius_loop buf (ptr + 1) stop (norm_sqr + abs_square (buf ! ptr))
           else Inl UndefinedBehaviour)"
  by pat_completeness auto
termination
  by (relation "measure (\<lambda>(buf, ptr, stop, norm_sqr). length buf - ptr)") auto

declare frobenius_loop.simps [simp del]

definition frobenius_norm :: "real ChunkSparseMatrix \<Rightarrow> error + real" where
  "frobenius_norm M =
     bind_err
       (frobenius_loop (case val M of None \<Rightarrow> [] | Some buf \<Rightarrow> buf) 0 (max_len M) 0)
       (\<lambda>norm_sqr. Inr (sqrt norm_sqr))"


text \<open>
  Modelled from the spec: \<open>Vector::linfty_norm()\<close> of the vector collaborator, the
  maximum of the absolute values of the elements (0 for no elements).
\<close>

definition vec_linfty_norm :: "real list \<Rightarrow> real" where
  "vec_linfty_norm v = fold max (map abs v) 0"

text \<open>Modelled from the spec: \<open>Vector::l2_norm()\<close>, the Euclidean norm.\<close>

definition l2_norm :: "real list \<Rightarrow> real" where
  "l2_norm v = sqrt (\<Sum>x\<leftarrow>v. x * x)"

text \<open>\<open>l1_norm()\<close>\<close>

definition l1_norm :: "env \<Rightarrow> real ChunkSparseMatrix \<Rightarrow> error + real" where
  "l1_norm env M =
     (case cols M of
        None \<Rightarrow> Inl ExcNeedsSparsityPattern
      | Some a \<Rightarrow>
         (case val M of
            None \<Rightarrow> Inl ExcNotInitialized
          | Some values \<Rightarrow>
             (case patterns env a of
                None \<Rightarrow> Inl UndefinedBehaviour
              | Some P \<Rightarrow>
                 let sp = sparsity_pattern P;
                     n_chunk_rows = sp_rows sp;
                     column_sums = replicate (sp_cols sp * chunk_size P) 0
                 in
                 bind_err
                   (for_loop [0..<n_chunk_rows] (\<lambda>chunk_row column_sums.
                      bind_err (rd (rowstart sp) chunk_row) (\<lambda>j_begin.
                      bind_err (rd (rowstart sp) (chunk_row + 1)) (\<lambda>j_end.
                        for_loop [j_begin..<j_end] (\<lambda>j.
                          for_loop [0..<chunk_size P] (\<lambda>r.
                            for_loop [0..<chunk_size P] (\<lambda>s column_sums.
                              bind_err (rd (colnums sp) j) (\<lambda>col.
                              bind_err
                                (rd values
                                   (j * chunk_size P * chunk_size P + r * chunk_size P + s))
                                (\<lambda>x. vec_upd column_sums (col * chunk_size P + s)
                                        (\<lambda>y. y + \<bar>x\<bar>))))))
                          column_sums)))
                      column_sums)
                   (\<lambda>column_sums. Inr (vec_linfty_norm column_sums)))))"

text \<open>\<open>linfty_norm()\<close>\<close>

definition linfty_norm :: "env \<Rightarrow> real ChunkSparseMatrix \<Rightarrow> error + real" where
  "linfty_norm env M =
     (case cols M of
        None \<Rightarrow> Inl ExcNeedsSparsityPattern
      | Some a \<Rightarrow>
         (case val M of
            None \<Rightarrow> Inl ExcNotInitialized
          | Some values \<Rightarrow>
             (case patterns env a of
                None \<Rightarrow> Inl UndefinedBehaviour
              | Some P \<Rightarrow>
                 let sp = sparsity_pattern P;
                     n_chunk_rows = sp_rows sp;
                     row_sums = replicate (sp_rows sp * chunk_size P) 0
                 in
                 bind_err
                   (for_loop [0..<n_chunk_rows] (\<lambda>chunk_row row_sums.
                      bind_err (rd (rowstart sp) chunk_row) (\<lambda>j_begin.
                      bind_err (rd (rowstart sp) (chunk_row + 1)) (\<lambda>j_end.
                        for_loop [j_begin..<j_end] (\<lambda>j.
                          for_loop [0..<chunk_size P] (\<lambda>r.
                            for_loop [0..<chunk_size P] (\<lambda>s row_sums.
                              bind_err
                                (rd values
                                   (j * chunk_size P * chunk_size P + r * chunk_size P + s))
                                (\<lambda>x. vec_upd row_sums (chunk_row * chunk_size P + r)
                                        (\<lambda>y. y + \<bar>x\<bar>)))))
                          row_sums)))
                      row_sums)
                   (\<lambda>row_sums. Inr (vec_linfty_norm row_sums)))))"

subsection \<open>Copying and adding matrices\<close>

text \<open>The array behind \<open>val.get()\<close>: no element can be accessed through a null pointer.\<close>

definition array_of :: "'a list option \<Rightarrow> 'a list" where
  "array_of v = (case v of None \<Rightarrow> [] | Some buf \<Rightarrow> buf)"



text \<open>
  The loop of \<open>add\<close>: \<open>while (val_ptr != end_ptr) *val_ptr++ += factor * *matrix_ptr++\<close>.
\<close>

function add_loop ::
  "'a::comm_ring_1 \<Rightarrow> 'a list \<Rightarrow> nat \<Rightarrow> nat \<Rightarrow> nat \<Rightarrow> 'a list \<Rightarrow> error + 'a list"
where
  "add_loop factor matrix_val end_ptr val_ptr matrix_ptr buf =
     (if val_ptr = end_ptr then Inr buf
      else if val_ptr < length buf \<and> matrix_ptr < length matrix_val
           then add_loop factor matrix_val end_ptr (val_ptr + 1) (matrix_ptr + 1)
                  (buf[val_ptr := buf ! val_ptr + factor * matrix_val ! matrix_ptr])
           else Inl UndefinedBehaviour)"
  by pat_completeness auto
termination
  by (relation "measure (\<lambda>(factor, matrix_val, end_ptr, val_ptr, matrix_ptr, buf).
                  length buf - val_ptr)") auto

declare add_loop.simps [simp del]

text \<open>
  \<open>add(const number factor, const ChunkSparseMatrix<somenumber> &matrix)\<close>, with
  \<open>somenumber = number\<close>.
\<close>

definition add ::
  "env \<Rightarrow> 'a::comm_ring_1 \<Rightarrow> 'a ChunkSparseMatrix \<Rightarrow> 'a ChunkSparseMatrix
     \<Rightarrow> error + 'a ChunkSparseMatrix"
where
  "add env factor matrix M =
     (case cols M of
        None \<Rightarrow> Inl ExcNeedsSparsityPattern
      | Some a \<Rightarrow>
         (case val M of
            None \<Rightarrow> Inl ExcNotInitialized
          | Some buf \<Rightarrow>
             if cols M \<noteq> cols matrix then Inl ExcDifferentChunkSparsityPatterns
             else
               (case patterns env a of
                  None \<Rightarrow> Inl UndefinedBehaviour
                | Some P \<Rightarrow>
                   let end_ptr = n_nonzero_elements (sparsity_pattern P) * chunk_size P
                                   * chunk_size P
                   in
                   bind_err (add_loop factor (array_of (val matrix)) end_ptr 0 0 buf)
                     (\<lambda>buf'. Inr (M\<lparr>val := Some buf'\<rparr>)))))"

subsection \<open>Access to single entries\<close>

text \<open>
  Modelled from the spec: the lookup \<open>sparsity_pattern(i, j)\<close> of the reduced pattern,
  the slot of the chunk at chunk position \<open>(i, j)\<close> in the compressed adjacency, if that
  chunk is stored.
\<close>

definition stored_slot :: "ChunkSparsityPattern \<Rightarrow> nat \<Rightarrow> nat \<Rightarrow> nat option" where
  "stored_slot P i j =
     (let sp = sparsity_pattern P in
      find (\<lambda>k. colnums sp ! k = j) [rowstart sp ! i..<rowstart sp ! (i + 1)])"

text \<open>
  Modelled from the spec: the position in the value array of the logical entry
  \<open>(i, j)\<close>. The chunk at slot \<open>k\<close> occupies
  \<open>[k * chunk_size\<^sup>2, (k + 1) * chunk_size\<^sup>2)\<close> in row-major order.
\<close>

definition compute_location :: "ChunkSparsityPattern \<Rightarrow> nat \<Rightarrow> nat \<Rightarrow> nat option" where
  "compute_location P i j =
     (case stored_slot P (i div chunk_size P) (j div chunk_size P) of
        None \<Rightarrow> None
      | Some k \<Rightarrow>
         Some (k * chunk_size P * chunk_size P + (i mod chunk_size P) * chunk_size P
               + j mod chunk_size P))"

text \<open>
  Modelled from the spec: \<open>set_entry(row, col, value)\<close> and
  \<open>add_entry(row, col, value)\<close> (the member functions \<open>set\<close> and \<open>add\<close> of the class
  declaration, which is not part of this file). They take logical indices within
  \<open>[0, m) \<times> [0, n)\<close> only and fail if the position is not represented in the bound
  sparsity structure.
\<close>

definition modify_entry ::
  "env \<Rightarrow> nat \<Rightarrow> nat \<Rightarrow> ('a \<Rightarrow> 'a) \<Rightarrow> 'a ChunkSparseMatrix \<Rightarrow> error + 'a ChunkSparseMatrix"
where
  "modify_entry env i j f M =
     (case cols M of
        None \<Rightarrow> Inl ExcNeedsSparsityPattern
      | Some a \<Rightarrow>
         (case patterns env a of
            None \<Rightarrow> Inl UndefinedBehaviour
          | Some P \<Rightarrow>
             if \<not> i < n_rows P then Inl (ExcIndexRange i (n_rows P))
             else if \<not> j < n_cols P then Inl (ExcIndexRange j (n_cols P))
             else
               (case compute_location P i j of
                  None \<Rightarrow> Inl (ExcInvalidIndex i j)
                | Some index \<Rightarrow>
                   bind_err (upd (array_of (val M)) index f)
                     (\<lambda>buf'. Inr (M\<lparr>val := Some buf'\<rparr>)))))"

definition set_entry ::
  "env \<Rightarrow> nat \<Rightarrow> nat \<Rightarrow> 'a \<Rightarrow> 'a ChunkSparseMatrix \<Rightarrow> error + 'a ChunkSparseMatrix"
where
  "set_entry env i j v M = modify_entry env i j (\<lambda>_. v) M"


text \<open>
  Modelled from the spec: the value of the logical entry \<open>(i, j)\<close> of the matrix stored
  in a value array, \<open>0\<close> where the pattern stores no chunk.
\<close>

definition el :: "ChunkSparsityPattern \<Rightarrow> 'a::zero list \<Rightarrow> nat \<Rightarrow> nat \<Rightarrow> 'a" where
  "el P values i j =
     (case compute_location P i j of None \<Rightarrow> 0 | Some index \<Rightarrow> values ! index)"


subsection \<open>Chunk kernels\<close>

text \<open>
  A pointer into an array is the array and an offset. \<open>chunk_vmult_add\<close>:
  the row pointer \<open>matrix_row\<close> is \<open>matrix + i * chunk_size\<close> in iteration \<open>i\<close>.
\<close>

definition chunk_vmult_add ::
  "nat \<Rightarrow> 'a::comm_ring_1 list \<Rightarrow> nat \<Rightarrow> 'a list \<Rightarrow> nat \<Rightarrow> 'a list \<Rightarrow> nat \<Rightarrow> error + 'a list"
where
  "chunk_vmult_add cs values matrix src_vec src dst_vec dst =
     for_loop [0..<cs] (\<lambda>i dst_vec.
       bind_err
         (for_loop [0..<cs] (\<lambda>j sum.
            bind_err (rd values (matrix + i * cs + j)) (\<lambda>a.
            bind_err (rd src_vec (src + j)) (\<lambda>x.
              Inr (sum + a * x))))
            0)
         (\<lambda>sum. upd dst_vec (dst + i) (\<lambda>y. y + sum)))
       dst_vec"

text \<open>\<open>chunk_vmult_subtract\<close>\<close>

definition chunk_vmult_subtract ::
  "nat \<Rightarrow> 'a::comm_ring_1 list \<Rightarrow> nat \<Rightarrow> 'a list \<Rightarrow> nat \<Rightarrow> 'a list \<Rightarrow> nat \<Rightarrow> error + 'a list"
where
  "chunk_vmult_subtract cs values matrix src_vec src dst_vec dst =
     for_loop [0..<cs] (\<lambda>i dst_vec.
       bind_err
         (for_loop [0..<cs] (\<lambda>j sum.
            bind_err (rd values (matrix + i * cs + j)) (\<lambda>a.
            bind_err (rd src_vec (src + j)) (\<lambda>x.
              Inr (sum + a * x))))
            0)
         (\<lambda>sum. upd dst_vec (dst + i) (\<lambda>y. y - sum)))
       dst_vec"

text \<open>
  The element-wise loops that \<open>vmult_add_on_subrange\<close> runs on a chunk with padding,
  over \<open>n_r\<close> rows and \<open>n_c\<close> columns of the chunk:
  \<open>dst_ptr[r] += val_ptr[r * chunk_size + c] * src(*colnum_ptr * chunk_size + c)\<close>.
\<close>

definition padded_chunk_add ::
  "nat \<Rightarrow> nat \<Rightarrow> nat \<Rightarrow> 'a::comm_ring_1 list \<Rightarrow> nat \<Rightarrow> 'a list \<Rightarrow> nat \<Rightarrow> 'a list \<Rightarrow> nat
     \<Rightarrow> error + 'a list"
where
  "padded_chunk_add cs n_r n_c values val_ptr src col dst dst_ptr =
     for_loop [0..<n_r] (\<lambda>r.
       for_loop [0..<n_c] (\<lambda>c dst.
         bind_err (rd values (val_ptr + (r * cs + c))) (\<lambda>a.
         bind_err (vec_at src (col * cs + c)) (\<lambda>x.
           upd dst (dst_ptr + r) (\<lambda>y. y + a * x)))))
       dst"

text \<open>
  The element-wise loops of \<open>residual\<close> on a chunk with padding:
  \<open>dst(chunk_row * chunk_size + r) -= val_ptr[r * chunk_size + c] * u(*colnum_ptr * chunk_size + c)\<close>.
\<close>

definition padded_chunk_subtract ::
  "nat \<Rightarrow> nat \<Rightarrow> nat \<Rightarrow> 'a::comm_ring_1 list \<Rightarrow> nat \<Rightarrow> 'a list \<Rightarrow> nat \<Rightarrow> 'a list \<Rightarrow> nat
     \<Rightarrow> error + 'a list"
where
  "padded_chunk_subtract cs n_r n_c values val_ptr u col dst chunk_row =
     for_loop [0..<n_r] (\<lambda>r.
       for_loop [0..<n_c] (\<lambda>c dst.
         bind_err (rd values (val_ptr + (r * cs + c))) (\<lambda>a.
         bind_err (vec_at u (col * cs + c)) (\<lambda>x.
           vec_upd dst (chunk_row * cs + r) (\<lambda>y. y - a * x)))))
       dst"

subsection \<open>The traversal of a range of chunk rows\<close>

text \<open>
  The loop over the chunks of one chunk row, as every traversal writes it:
  \<open>while (val_ptr != val_end_of_row) { body; ++colnum_ptr; val_ptr += chunk_size * chunk_size; }\<close>.
  The body reads \<open>*colnum_ptr\<close> and works on the chunk at \<open>val_ptr\<close>; \<open>stride\<close> is
  \<open>chunk_size * chunk_size\<close>. The result is the two cursors and the destination.
\<close>

function chunk_while ::
  "(nat \<Rightarrow> nat \<Rightarrow> 'd \<Rightarrow> error + 'd) \<Rightarrow> nat list \<Rightarrow> nat \<Rightarrow> nat \<Rightarrow> nat \<Rightarrow> nat \<Rightarrow> 'd
     \<Rightarrow> error + (nat \<times> nat \<times> 'd)"
where
  "chunk_while body colnums_arr stride val_end_of_row val_ptr colnum_ptr dst =
     (if val_ptr = val_end_of_row then Inr (val_ptr, colnum_ptr, dst)
      else if colnum_ptr < length colnums_arr
           then (case body val_ptr (colnums_arr ! colnum_ptr) dst of
                   Inl e \<Rightarrow> Inl e
                 | Inr dst' \<Rightarrow>
                    chunk_while body colnums_arr stride val_end_of_row
                      (val_ptr + stride) (colnum_ptr + 1) dst')
           else Inl UndefinedBehaviour)"
  by pat_completeness auto
termination
  by (relation "measure (\<lambda>(body, colnums_arr, stride, val_end_of_row, val_ptr, colnum_ptr, dst).
                  length colnums_arr - colnum_ptr)") auto

declare chunk_while.simps [simp del]

text \<open>
  \<open>vmult_add_on_subrange\<close> up to its two final assertions: the result is the value
  cursor \<open>val_ptr - values\<close>, the column cursor \<open>colnum_ptr - colnums\<close> and the
  destination vector.
\<close>

definition vmult_add_walk ::
  "ChunkSparsityPattern \<Rightarrow> nat \<Rightarrow> nat \<Rightarrow> 'a::comm_ring_1 list \<Rightarrow> nat list \<Rightarrow> nat list
     \<Rightarrow> 'a list \<Rightarrow> 'a list \<Rightarrow> error + (nat \<times> nat \<times> 'a list)"
where
  "vmult_add_walk pat begin_row end_row values rowstart_arr colnums_arr src dst =
     (let m = n_rows pat; n = n_cols pat; cs = chunk_size pat in
      if cs = 0 then Inl UndefinedBehaviour
      else
        let n_filled_last_rows = m mod cs;
            n_filled_last_cols = n mod cs;
            last_regular_row =
              (if n_filled_last_rows > 0 then min (m div cs) end_row else end_row);
            irregular_col = n div cs
        in
        bind_err (rd rowstart_arr begin_row) (\<lambda>first.
        bind_err
          (for_loop [begin_row..<last_regular_row]
             (\<lambda>chunk_row (val_ptr, colnum_ptr, dst_ptr, dst).
                bind_err (rd rowstart_arr (chunk_row + 1)) (\<lambda>next_row.
                bind_err
                  (chunk_while
                     (\<lambda>val_ptr col dst.
                        if col \<noteq> irregular_col
                        then chunk_vmult_add cs values val_ptr src (col * cs)
                               dst dst_ptr
                        else padded_chunk_add cs cs n_filled_last_cols
                               values val_ptr src col dst dst_ptr)
                     colnums_arr (cs * cs)
                     (next_row * cs * cs) val_ptr colnum_ptr dst)
                  (\<lambda>(val_ptr, colnum_ptr, dst).
                     Inr (val_ptr, colnum_ptr, dst_ptr + cs, dst))))
             (first * cs * cs, first, cs * begin_row, dst))
          (\<lambda>(val_ptr, colnum_ptr, dst_ptr, dst).
             if n_filled_last_rows > 0 \<and> end_row = m div cs + 1
             then
               let chunk_row = last_regular_row in
               bind_err (rd rowstart_arr (chunk_row + 1)) (\<lambda>next_row.
                 chunk_while
                   (\<lambda>val_ptr col dst.
                      if col \<noteq> irregular_col
                      then padded_chunk_add cs n_filled_last_rows cs
                             values val_ptr src col dst dst_ptr
                      else padded_chunk_add cs n_filled_last_rows n_filled_last_cols
                             values val_ptr src col dst dst_ptr)
                   colnums_arr (cs * cs)
                   (next_row * cs * cs) val_ptr colnum_ptr dst)
             else Inr (val_ptr, colnum_ptr, dst))))"

text \<open>\<open>vmult_add_on_subrange\<close>: the walk, then the two assertions on the cursors.\<close>

definition vmult_add_on_subrange ::
  "ChunkSparsityPattern \<Rightarrow> nat \<Rightarrow> nat \<Rightarrow> 'a::comm_ring_1 list \<Rightarrow> nat list \<Rightarrow> nat list
     \<Rightarrow> 'a list \<Rightarrow> 'a list \<Rightarrow> error + 'a list"
where
  "vmult_add_on_subrange pat begin_row end_row values rowstart_arr colnums_arr src dst =
     bind_err
       (vmult_add_walk pat begin_row end_row values rowstart_arr colnums_arr src dst)
       (\<lambda>(val_ptr, colnum_ptr, dst).
          bind_err (rd rowstart_arr end_row) (\<lambda>last.
            if colnum_ptr \<noteq> last then Inl ExcInternalError
            else if val_ptr \<noteq> last * chunk_size pat * chunk_size pat
                 then Inl ExcInternalError
                 else Inr dst))"

subsection \<open>Matrix-vector products\<close>

text \<open>
  The vectors are in a store, and a vector argument is the address of its vector, so
  that \<open>&src == &dst\<close> is the equality of two addresses. \<open>m()\<close> and \<open>n()\<close> are the
  logical dimensions of the pattern.
\<close>

text \<open>\<open>vmult_add(OutVector &dst, const InVector &src)\<close>\<close>

definition vmult_add ::
  "env \<Rightarrow> 'a::comm_ring_1 ChunkSparseMatrix \<Rightarrow> (nat \<Rightarrow> 'a list) \<Rightarrow> nat \<Rightarrow> nat
     \<Rightarrow> error + (nat \<Rightarrow> 'a list)"
where
  "vmult_add env M vecs dst src =
     (case cols M of
        None \<Rightarrow> Inl ExcNeedsSparsityPattern
      | Some a \<Rightarrow>
         (case val M of
            None \<Rightarrow> Inl ExcNotInitialized
          | Some values \<Rightarrow>
             (case patterns env a of
                None \<Rightarrow> Inl UndefinedBehaviour
              | Some P \<Rightarrow>
                 if n_rows P \<noteq> length (vecs dst)
                 then Inl (ExcDimensionMismatch (n_rows P) (length (vecs dst)))
                 else if n_cols P \<noteq> length (vecs src)
                 then Inl (ExcDimensionMismatch (n_cols P) (length (vecs src)))
                 else if src = dst then Inl ExcSourceEqualsDestination
                 else if chunk_size P = 0 then Inl UndefinedBehaviour
                 else
                   bind_err
                     (apply_to_subranges (schedule env) 0 (sp_rows (sparsity_pattern P))
                        (\<lambda>begin_row end_row d.
                           vmult_add_on_subrange P begin_row end_row values
                             (rowstart (sparsity_pattern P)) (colnums (sparsity_pattern P))
                             (vecs src) d)
                        (minimum_parallel_grain_size env div chunk_size P + 1)
                        (vecs dst))
                     (\<lambda>d. Inr (vecs(dst := d))))))"

text \<open>\<open>vmult(OutVector &dst, const InVector &src)\<close>; \<open>dst = 0\<close> keeps the size.\<close>

definition vmult ::
  "env \<Rightarrow> 'a::comm_ring_1 ChunkSparseMatrix \<Rightarrow> (nat \<Rightarrow> 'a list) \<Rightarrow> nat \<Rightarrow> nat
     \<Rightarrow> error + (nat \<Rightarrow> 'a list)"
where
  "vmult env M vecs dst src =
     (case cols M of
        None \<Rightarrow> Inl ExcNeedsSparsityPattern
      | Some a \<Rightarrow>
         (case val M of
            None \<Rightarrow> Inl ExcNotInitialized
          | Some values \<Rightarrow>
             (case patterns env a of
                None \<Rightarrow> Inl UndefinedBehaviour
              | Some P \<Rightarrow>
                 if n_rows P \<noteq> length (vecs dst)
                 then Inl (ExcDimensionMismatch (n_rows P) (length (vecs dst)))
                 else if n_cols P \<noteq> length (vecs src)
                 then Inl (ExcDimensionMismatch (n_cols P) (length (vecs src)))
                 else if src = dst then Inl ExcSourceEqualsDestination
                 else
                   vmult_add env M (vecs(dst := replicate (length (vecs dst)) 0)) dst src)))"

text \<open>
  The traversal of \<open>residual\<close>, after \<open>dst = b\<close>. With \<open>size_type\<close> unsigned,
  \<open>n_chunk_rows - 1\<close> wraps around for \<open>n_chunk_rows = 0\<close> and the row loop then runs off
  the end of \<open>rowstart\<close>; \<open>*colnum_ptr != n_cols() - 1\<close> is written without the
  subtraction.
\<close>

definition residual_walk ::
  "ChunkSparsityPattern \<Rightarrow> 'a::comm_ring_1 list \<Rightarrow> 'a list \<Rightarrow> 'a list
     \<Rightarrow> error + (nat \<times> nat \<times> 'a list)"
where
  "residual_walk P values u dst =
     (let sp = sparsity_pattern P;
          n_chunk_rows = sp_rows sp
      in
      if chunk_size P = 0 then Inl UndefinedBehaviour
      else
        let rows_have_padding = (n_rows P mod chunk_size P \<noteq> 0);
            cols_have_padding = (n_cols P mod chunk_size P \<noteq> 0)
        in
        if rows_have_padding \<and> n_chunk_rows = 0 then Inl UndefinedBehaviour
        else
          let n_regular_chunk_rows =
                (if rows_have_padding then n_chunk_rows - 1 else n_chunk_rows)
          in
          bind_err
            (for_loop [0..<n_regular_chunk_rows]
               (\<lambda>chunk_row (val_ptr, colnum_ptr, dst_ptr, dst).
                  bind_err (rd (rowstart sp) (chunk_row + 1)) (\<lambda>next_row.
                  bind_err
                    (chunk_while
                       (\<lambda>val_ptr col dst.
                          if \<not> cols_have_padding \<or> Suc col \<noteq> sp_cols sp
                          then chunk_vmult_subtract (chunk_size P) values val_ptr u
                                 (col * chunk_size P) dst dst_ptr
                          else padded_chunk_subtract (chunk_size P) (chunk_size P)
                                 (n_cols P mod chunk_size P) values val_ptr u col dst chunk_row)
                       (colnums sp) (chunk_size P * chunk_size P)
                       (next_row * chunk_size P * chunk_size P) val_ptr colnum_ptr dst)
                    (\<lambda>(val_ptr, colnum_ptr, dst).
                       Inr (val_ptr, colnum_ptr, dst_ptr + chunk_size P, dst))))
               (0, 0, 0, dst))
            (\<lambda>(val_ptr, colnum_ptr, dst_ptr, dst).
               if rows_have_padding
               then
                 let chunk_row = n_chunk_rows - 1 in
                 bind_err (rd (rowstart sp) (chunk_row + 1)) (\<lambda>next_row.
                   chunk_while
                     (\<lambda>val_ptr col dst.
                        if \<not> cols_have_padding \<or> Suc col \<noteq> sp_cols sp
                        then padded_chunk_subtract (chunk_size P)
                               (n_rows P mod chunk_size P) (chunk_size P)
                               values val_ptr u col dst chunk_row
                        else padded_chunk_subtract (chunk_size P)
                               (n_rows P mod chunk_size P) (n_cols P mod chunk_size P)
                               values val_ptr u col dst chunk_row)
                     (colnums sp) (chunk_size P * chunk_size P)
                     (next_row * chunk_size P * chunk_size P) val_ptr colnum_ptr dst)
               else Inr (val_ptr, colnum_ptr, dst)))"

text \<open>
  \<open>residual(Vector &dst, const Vector &u, const Vector &b)\<close>: the result is the
  returned norm and the store of vectors.
\<close>

definition residual ::
  "env \<Rightarrow> real ChunkSparseMatrix \<Rightarrow> (nat \<Rightarrow> real list) \<Rightarrow> nat \<Rightarrow> nat \<Rightarrow> nat
     \<Rightarrow> error + (real \<times> (nat \<Rightarrow> real list))"
where
  "residual env M vecs dst u b =
     (case cols M of
        None \<Rightarrow> Inl ExcNeedsSparsityPattern
      | Some a \<Rightarrow>
         (case val M of
            None \<Rightarrow> Inl ExcNotInitialized
          | Some values \<Rightarrow>
             (case patterns env a of
                None \<Rightarrow> Inl UndefinedBehaviour
              | Some P \<Rightarrow>
                 if n_rows P \<noteq> length (vecs dst)
                 then Inl (ExcDimensionMismatch (n_rows P) (length (vecs dst)))
                 else if n_rows P \<noteq> length (vecs b)
                 then Inl (ExcDimensionMismatch (n_rows P) (length (vecs b)))
                 else if n_cols P \<noteq> length (vecs u)
                 then Inl (ExcDimensionMismatch (n_cols P) (length (vecs u)))
                 else if u = dst then Inl ExcSourceEqualsDestination
                 else
                   let vecs1 = vecs(dst := vecs b) in
                   bind_err (residual_walk P values (vecs1 u) (vecs1 dst))
                     (\<lambda>(val_ptr, colnum_ptr, d).
                        Inr (l2_norm d, vecs1(dst := d))))))"


subsection \<open>Block input and output\<close>

text \<open>
  The streams of the standard library: an output stream is the characters written so
  far and its fail bit, an input stream the characters not yet read and its fail bit.
  A write to a stream that has not failed succeeds; every operation on a failed stream
  does nothing.
\<close>

record ostream =
  written :: "char list"
  out_fail :: bool

record istream =
  unread :: "char list"
  in_fail :: bool

definition put :: "char list \<Rightarrow> ostream \<Rightarrow> ostream" where
  "put s out = (if out_fail out then out else out\<lparr>written := written out @ s\<rparr>)"

definition digit_char :: "nat \<Rightarrow> char" where
  "digit_char d = char_of (48 + d)"

definition is_digit :: "char \<Rightarrow> bool" where
  "is_digit c = (48 \<le> (of_char c :: nat) \<and> (of_char c :: nat) < 58)"

definition digit_val :: "char \<Rightarrow> nat" where
  "digit_val c = of_char c - 48"

definition is_space :: "char \<Rightarrow> bool" where
  "is_space c = ((of_char c :: nat) = 32 \<or> (9 \<le> (of_char c :: nat) \<and> (of_char c :: nat) \<le> 13))"

text \<open>\<open>out << n\<close> for an unsigned integer: its decimal digits.\<close>

function show_nat :: "nat \<Rightarrow> char list" where
  "show_nat n =
     (if n < 10 then [digit_char n] else show_nat (n div 10) @ [digit_char (n mod 10)])"
  by pat_completeness auto
termination
  by (relation "measure id") auto

declare show_nat.simps [simp del]

definition parse_nat :: "char list \<Rightarrow> nat" where
  "parse_nat ds = foldl (\<lambda>acc c. acc * 10 + digit_val c) 0 ds"

text \<open>
  \<open>in >> c\<close> for a \<open>char\<close>: skips white space and reads one character; at the end of
  the stream it sets the fail bit and leaves \<open>c\<close> as it was. The variable is \<open>None\<close>
  while it is uninitialised.
\<close>

definition get_char :: "char option \<Rightarrow> istream \<Rightarrow> char option \<times> istream" where
  "get_char c inp =
     (if in_fail inp then (c, inp)
      else case dropWhile is_space (unread inp) of
             [] \<Rightarrow> (c, inp\<lparr>unread := [], in_fail := True\<rparr>)
           | x # rest \<Rightarrow> (Some x, inp\<lparr>unread := rest\<rparr>))"

text \<open>
  \<open>in >> n\<close> for an unsigned integer: skips white space and reads the longest run of
  decimal digits; with no digit it sets the fail bit and stores 0. (A sign, and a value
  too large for the type, are not modelled: all sizes fit.)
\<close>

definition get_nat :: "nat \<Rightarrow> istream \<Rightarrow> nat \<times> istream" where
  "get_nat n inp =
     (if in_fail inp then (n, inp)
      else
        let s = dropWhile is_space (unread inp);
            ds = takeWhile is_digit s
        in if ds = [] then (0, inp\<lparr>unread := s, in_fail := True\<rparr>)
           else (parse_nat ds, inp\<lparr>unread := dropWhile is_digit s\<rparr>))"

text \<open>
  \<open>in.read(p, k)\<close>: the next \<open>k\<close> characters, or the fail bit when the stream is
  shorter.
\<close>

definition get_block :: "nat \<Rightarrow> istream \<Rightarrow> char list option \<times> istream" where
  "get_block k inp =
     (if in_fail inp then (None, inp)
      else if k \<le> length (unread inp)
           then (Some (take k (unread inp)), inp\<lparr>unread := drop k (unread inp)\<rparr>)
           else (None, inp\<lparr>unread := [], in_fail := True\<rparr>))"

text \<open>
  The object representation of \<open>number\<close> is a parameter: \<open>sizeof_number\<close> bytes per
  element, \<open>to_bytes\<close> reads them from an element, \<open>from_bytes\<close> is the element that
  these bytes are.
\<close>

record 'a number_repr =
  sizeof_number :: nat
  to_bytes :: "'a \<Rightarrow> char list"
  from_bytes :: "char list \<Rightarrow> 'a"

fun decode :: "'a number_repr \<Rightarrow> nat \<Rightarrow> char list \<Rightarrow> 'a list" where
  "decode repr 0 bytes = []"
| "decode repr (Suc k) bytes =
     from_bytes repr (take (sizeof_number repr) bytes)
       # decode repr k (drop (sizeof_number repr) bytes)"

text \<open>\<open>block_write(std::ostream &out)\<close>\<close>

definition block_write ::
  "'a number_repr \<Rightarrow> 'a ChunkSparseMatrix \<Rightarrow> ostream \<Rightarrow> error + ostream"
where
  "block_write repr M out =
     (if out_fail out then Inl ExcIO
      else
        let out1 = put '']['' (put (show_nat (max_len M)) (put ''['' out)) in
        if max_len M \<le> length (array_of (val M))
        then
          let out2 = put (concat (map (to_bytes repr) (take (max_len M) (array_of (val M)))))
                       out1;
              out3 = put '']'' out2
          in if out_fail out3 then Inl ExcIO else Inr out3
        else Inl UndefinedBehaviour)"

text \<open>
  \<open>block_read(std::istream &in)\<close>. The local \<open>char c\<close> starts uninitialised
  (\<open>None\<close>); comparing it before a read has stored a character is undefined. A short
  read leaves the fail bit set, so the last \<open>in >> c\<close> keeps the \<open>'['\<close> read before and
  the last check fails.
\<close>

definition expect_char :: "char option \<Rightarrow> char \<Rightarrow> error + unit" where
  "expect_char c x =
     (case c of
        None \<Rightarrow> Inl UndefinedBehaviour
      | Some y \<Rightarrow> if y = x then Inr () else Inl ExcIO)"

definition block_read ::
  "'a::zero number_repr \<Rightarrow> 'a ChunkSparseMatrix \<Rightarrow> istream
     \<Rightarrow> error + ('a ChunkSparseMatrix \<times> istream)"
where
  "block_read repr M inp =
     (if in_fail inp then Inl ExcIO
      else
        let (c, in1) = get_char None inp in
        bind_err (expect_char c (CHR ''['')) (\<lambda>_.
        let (len, in2) = get_nat (max_len M) in1;
            (c, in3) = get_char c in2
        in
        bind_err (expect_char c (CHR '']'')) (\<lambda>_.
        let (c, in4) = get_char c in3 in
        bind_err (expect_char c (CHR ''['')) (\<lambda>_.
        let M1 = M\<lparr>val := Some (replicate len 0), max_len := len,
                   allocations := allocations M + 1\<rparr>;
            (bytes, in5) = get_block (len * sizeof_number repr) in4;
            M2 = (case bytes of
                    None \<Rightarrow> M1
                  | Some bs \<Rightarrow> M1\<lparr>val := Some (decode repr len bs)\<rparr>);
            (c, in6) = get_char c in5
        in
        bind_err (expect_char c (CHR '']'')) (\<lambda>_. Inr (M2, in6))))))"

section \<open>Specification\<close>

subsection \<open>Well-formed patterns and matrices\<close>

text \<open>
  What a compressed chunk sparsity pattern guarantees: a positive chunk size; as many
  chunk rows and columns as cover the logical dimensions; row offsets that start at 0,
  do not decrease and end at the number of stored chunks; chunk column indices in range
  and, within a chunk row, without repetition (they are sorted); and the pattern is empty
  exactly when it has no chunk row or no chunk column.
\<close>

definition valid_pattern :: "ChunkSparsityPattern \<Rightarrow> bool" where
  "valid_pattern P =
     (let sp = sparsity_pattern P; cs = chunk_size P in
      0 < cs
      \<and> sp_rows sp = (n_rows P + cs - 1) div cs
      \<and> sp_cols sp = (n_cols P + cs - 1) div cs
      \<and> length (rowstart sp) = sp_rows sp + 1
      \<and> rowstart sp ! 0 = 0
      \<and> rowstart sp ! sp_rows sp = length (colnums sp)
      \<and> (\<forall>i \<in> {0..<sp_rows sp}. rowstart sp ! i \<le> rowstart sp ! (i + 1))
      \<and> (\<forall>k \<in> {0..<length (colnums sp)}. colnums sp ! k < sp_cols sp)
      \<and> (\<forall>i \<in> {0..<sp_rows sp}.
            distinct (map (\<lambda>k. colnums sp ! k) [rowstart sp ! i..<rowstart sp ! (i + 1)]))
      \<and> compressed sp
      \<and> (pat_empty P \<longleftrightarrow> sp_rows sp = 0 \<or> sp_cols sp = 0))"

text \<open>
  The class invariant of the matrix for the patterns of an environment: no pattern, no
  array and no capacity; or a pattern, that is empty with no array and no capacity, or
  not empty with an array of \<open>max_len\<close> elements that holds the pattern's chunks.
\<close>

definition wf_matrix :: "env \<Rightarrow> 'a ChunkSparseMatrix \<Rightarrow> bool" where
  "wf_matrix env M =
     (case cols M of
        None \<Rightarrow> val M = None \<and> max_len M = 0
      | Some a \<Rightarrow>
         (case patterns env a of
            None \<Rightarrow> False
          | Some P \<Rightarrow>
             valid_pattern P
             \<and> (if pat_empty P then val M = None \<and> max_len M = 0
                else (case val M of
                        None \<Rightarrow> False
                      | Some buf \<Rightarrow> length buf = max_len M \<and> required_len P \<le> max_len M))))"

subsection \<open>Padding\<close>

text \<open>
  Position \<open>p\<close> of the value array lies in chunk slot \<open>p div chunk_size\<^sup>2\<close>, at row
  \<open>p mod chunk_size\<^sup>2 div chunk_size\<close> and column \<open>p mod chunk_size\<close> of the chunk. It is
  padding when the chunk is in the last chunk row and the row is beyond the logical
  bound, or the chunk is in the last chunk column and the column is beyond the logical
  bound.
\<close>

definition padding_position :: "ChunkSparsityPattern \<Rightarrow> nat \<Rightarrow> bool" where
  "padding_position P p =
     (let sp = sparsity_pattern P; cs = chunk_size P;
          k = p div (cs * cs); r = p mod (cs * cs) div cs; c = p mod cs
      in
      p < required_len P
      \<and> ((n_rows P mod cs \<noteq> 0 \<and> rowstart sp ! (sp_rows sp - 1) \<le> k \<and> n_rows P mod cs \<le> r)
         \<or> (n_cols P mod cs \<noteq> 0 \<and> colnums sp ! k = sp_cols sp - 1 \<and> n_cols P mod cs \<le> c)))"

definition padding_zero :: "ChunkSparsityPattern \<Rightarrow> 'a::zero list \<Rightarrow> bool" where
  "padding_zero P buf =
     (\<forall>p \<in> {0..<required_len P}. padding_position P p \<longrightarrow> buf ! p = 0)"

subsection \<open>The logical matrix-vector product\<close>

text \<open>
  Row \<open>i\<close> of the product of the logical matrix with \<open>src\<close>: the sum over the logical
  columns \<open>j\<close> of \<open>A[i,j] * src[j]\<close>, where an entry that is not stored is 0.
\<close>

definition logical_product ::
  "ChunkSparsityPattern \<Rightarrow> 'a::comm_ring_1 list \<Rightarrow> 'a list \<Rightarrow> 'a list"
where
  "logical_product P values src =
     map (\<lambda>i. \<Sum>j\<leftarrow>[0..<n_cols P]. el P values i j * src ! j) [0..<n_rows P]"


subsection \<open>What a traversal computes\<close>

text \<open>
  The number of logical columns in chunk column \<open>col\<close>: all of them, except in the
  chunk column that holds the logical bound.
\<close>

definition chunk_cols :: "ChunkSparsityPattern \<Rightarrow> nat \<Rightarrow> nat" where
  "chunk_cols P col =
     (if col = n_cols P div chunk_size P then n_cols P mod chunk_size P else chunk_size P)"

text \<open>
  The product of row \<open>r\<close> of the chunk at \<open>val_ptr\<close>, restricted to its first \<open>n_c\<close>
  columns, with the source fragment at \<open>src_ptr\<close>.
\<close>

definition chunk_row_sum ::
  "nat \<Rightarrow> 'a::comm_ring_1 list \<Rightarrow> nat \<Rightarrow> 'a list \<Rightarrow> nat \<Rightarrow> nat \<Rightarrow> nat \<Rightarrow> 'a"
where
  "chunk_row_sum cs values val_ptr src src_ptr n_c r =
     (\<Sum>c<n_c. values ! (val_ptr + r * cs + c) * src ! (src_ptr + c))"

text \<open>
  The contribution of the stored chunks of its chunk row to the logical row \<open>i\<close> of
  the product, chunk by chunk in storage order.
\<close>

definition row_sum :: "ChunkSparsityPattern \<Rightarrow> 'a::comm_ring_1 list \<Rightarrow> 'a list \<Rightarrow> nat \<Rightarrow> 'a" where
  "row_sum P values src i =
     (let sp = sparsity_pattern P; cs = chunk_size P in
      \<Sum>k\<leftarrow>[rowstart sp ! (i div cs)..<rowstart sp ! (i div cs + 1)].
        chunk_row_sum cs values (k * (cs * cs)) src (colnums sp ! k * cs)
          (chunk_cols P (colnums sp ! k)) (i mod cs))"

text \<open>The vector \<open>dst\<close> with \<open>f q\<close> added to its element \<open>q\<close> for \<open>lo \<le> q < hi\<close>.\<close>

definition add_rows :: "'a::comm_ring_1 list \<Rightarrow> nat \<Rightarrow> nat \<Rightarrow> (nat \<Rightarrow> 'a) \<Rightarrow> 'a list" where
  "add_rows dst lo hi f =
     map (\<lambda>q. if lo \<le> q \<and> q < hi then dst ! q + f q else dst ! q) [0..<length dst]"

subsection \<open>Example patterns\<close>

text \<open>
  The scenario of the specification: chunk size 2, logical dimensions \<open>3 \<times> 3\<close>, chunks
  at the chunk positions \<open>(0,0)\<close> and \<open>(1,1)\<close>; a \<open>2 \<times> 2\<close> pattern of one chunk
  without padding; an empty pattern; and a pattern that is not empty and stores no chunk.
  In the example environment the addresses 1 and 4 hold two pattern objects that are
  equal in structure.
\<close>

definition pattern_3x3 :: ChunkSparsityPattern where
  "pattern_3x3 =
     \<lparr>n_rows = 3, n_cols = 3, chunk_size = 2,
      sparsity_pattern =
        \<lparr>sp_rows = 2, sp_cols = 2, rowstart = [0, 1, 2], colnums = [0, 1], compressed = True\<rparr>,
      pat_empty = False\<rparr>"

definition pattern_2x2 :: ChunkSparsityPattern where
  "pattern_2x2 =
     \<lparr>n_rows = 2, n_cols = 2, chunk_size = 2,
      sparsity_pattern =
        \<lparr>sp_rows = 1, sp_cols = 1, rowstart = [0, 1], colnums = [0], compressed = True\<rparr>,
      pat_empty = False\<rparr>"

definition pattern_0x0 :: ChunkSparsityPattern where
  "pattern_0x0 =
     \<lparr>n_rows = 0, n_cols = 0, chunk_size = 1,
      sparsity_pattern =
        \<lparr>sp_rows = 0, sp_cols = 0, rowstart = [0], colnums = [], compressed = True\<rparr>,
      pat_empty = True\<rparr>"

definition pattern_1x2_no_chunks :: ChunkSparsityPattern where
  "pattern_1x2_no_chunks =
     \<lparr>n_rows = 1, n_cols = 2, chunk_size = 1,
      sparsity_pattern =
        \<lparr>sp_rows = 1, sp_cols = 2, rowstart = [0, 0], colnums = [], compressed = True\<rparr>,
      pat_empty = False\<rparr>"

text \<open>
  A pattern of one chunk whose required length does not fit \<open>size_type\<close>: chunk size
  65536 and logical dimensions \<open>65536 \<times> 65536\<close>, so that one chunk has \<open>2\<^sup>3\<^sup>2\<close>
  elements.
\<close>

definition pattern_one_large_chunk :: ChunkSparsityPattern where
  "pattern_one_large_chunk =
     \<lparr>n_rows = 65536, n_cols = 65536, chunk_size = 65536,
      sparsity_pattern =
        \<lparr>sp_rows = 1, sp_cols = 1, rowstart = [0, 1], colnums = [0], compressed = True\<rparr>,
      pat_empty = False\<rparr>"

definition example_env :: env where
  "example_env =
     \<lparr>patterns = (\<lambda>a. if a = 0 then Some pattern_3x3
                      else if a = 1 then Some pattern_2x2
                      else if a = 2 then Some pattern_0x0
                      else if a = 3 then Some pattern_1x2_no_chunks
                      else if a = 4 then Some pattern_2x2
                      else None),
      minimum_parallel_grain_size = 128,
      schedule = [1]\<rparr>"


text \<open>
  An object representation for the examples: one byte per number, for the numbers 0 to
  255.
\<close>

definition byte_repr :: "int number_repr" where
  "byte_repr =
     \<lparr>sizeof_number = 1, to_bytes = (\<lambda>x. [char_of (nat x)]),
      from_bytes = (\<lambda>bs. int (of_char (hd bs)))\<rparr>"


section \<open>Properties\<close>

subsection \<open>Zero-filling and binding\<close>

lemma bind_err_simps [simp]:
  "bind_err (Inl e) f = Inl e" "bind_err (Inr x) f = f x"
  by (simp_all add: bind_err_def)

lemma zero_subrange_nth:
  assumes "b \<le> e" "e \<le> length buf"
  shows "zero_subrange b e buf = Inr (map (\<lambda>i. if b \<le> i \<and> i < e then 0 else buf ! i) [0..<length buf])"
proof -
  have "take b buf @ replicate (e - b) 0 @ drop e buf
        = map (\<lambda>i. if b \<le> i \<and> i < e then 0 else buf ! i) [0..<length buf]"
    using assms by (intro nth_equalityI) (auto simp: nth_append)
  then show ?thesis using assms by (simp add: zero_subrange_def)
qed

lemma apply_to_subranges_zero:
  assumes "b \<le> e" "e \<le> length buf"
  shows "apply_to_subranges sched b e zero_subrange g buf
         = Inr (map (\<lambda>i. if b \<le> i \<and> i < e then 0 else buf ! i) [0..<length buf])"
  using assms
proof (induction sched arbitrary: b buf)
  case Nil
  then show ?case by (simp add: zero_subrange_nth)
next
  case (Cons k ks)
  show ?case
  proof (cases "0 < k \<and> b + k < e")
    case False
    then show ?thesis using Cons.prems by (auto simp: zero_subrange_nth)
  next
    case True
    let ?buf1 = "map (\<lambda>i. if b \<le> i \<and> i < b + k then 0 else buf ! i) [0..<length buf]"
    have z: "zero_subrange b (b + k) buf = Inr ?buf1"
      using True Cons.prems by (intro zero_subrange_nth) auto
    have "apply_to_subranges ks (b + k) e zero_subrange g ?buf1
          = Inr (map (\<lambda>i. if b + k \<le> i \<and> i < e then 0 else ?buf1 ! i) [0..<length ?buf1])"
      using True Cons.prems by (intro Cons.IH) auto
    also have "map (\<lambda>i. if b + k \<le> i \<and> i < e then 0 else ?buf1 ! i) [0..<length ?buf1]
               = map (\<lambda>i. if b \<le> i \<and> i < e then 0 else buf ! i) [0..<length buf]"
      using True by (intro nth_equalityI) auto
    finally show ?thesis using True z by simp
  qed
qed

lemma zero_front:
  assumes "N \<le> length buf"
  shows "map (\<lambda>i. if i < N then 0 else buf ! i) [0..<length buf]
         = replicate N 0 @ drop N buf"
  using assms by (intro nth_equalityI) (auto simp: nth_append)

lemma to_unsigned_int_fits: "x < 2 ^ 32 \<Longrightarrow> to_unsigned_int x = x"
  by (simp add: to_unsigned_int_def)

lemma assign_scalar_zero:
  assumes "cols M = Some a" "patterns env a = Some P"
    "compressed (sparsity_pattern P) \<or> pat_empty P" "0 < n_rows P"
    "val M = Some buf" "required_len P \<le> length buf" "required_len P < 2 ^ 32"
  shows "assign_scalar env 0 M
         = Inr (M\<lparr>val := Some (replicate (required_len P) 0 @ drop (required_len P) buf)\<rparr>)"
proof -
  have a: "apply_to_subranges (schedule env) 0 (required_len P) zero_subrange g buf
           = Inr (replicate (required_len P) 0 @ drop (required_len P) buf)" for g
    using assms(6) by (simp add: apply_to_subranges_zero zero_front)
  have z: "zero_subrange 0 (required_len P) buf
           = Inr (replicate (required_len P) 0 @ drop (required_len P) buf)"
    using assms(6) by (simp add: zero_subrange_nth zero_front)
  have e: "required_len P = 0 \<Longrightarrow> M\<lparr>val := Some (replicate (required_len P) 0 @ drop (required_len P) buf)\<rparr> = M"
    using assms(5) by simp
  have n: "to_unsigned_int
             (n_nonzero_elements (sparsity_pattern P) * chunk_size P * chunk_size P)
           = required_len P"
    using assms(7) by (simp add: to_unsigned_int_fits required_len_def)
  show ?thesis
    using assms(1-5) a z e
    by (auto simp: assign_scalar_def n Let_def)
qed

lemma valid_pattern_nonempty_rows:
  assumes "valid_pattern P" "\<not> pat_empty P"
  shows "0 < n_rows P" "0 < n_cols P" "compressed (sparsity_pattern P)" "0 < chunk_size P"
proof -
  from assms have cs: "0 < chunk_size P" and
    r: "(n_rows P + chunk_size P - 1) div chunk_size P \<noteq> 0" and
    c: "(n_cols P + chunk_size P - 1) div chunk_size P \<noteq> 0"
    and "compressed (sparsity_pattern P)"
    by (auto simp: valid_pattern_def Let_def)
  then show "compressed (sparsity_pattern P)" "0 < chunk_size P" by auto
  show "0 < n_rows P" using r cs by (cases "n_rows P") auto
  show "0 < n_cols P" using c cs by (cases "n_cols P") auto
qed

lemma reinit_nonempty:
  assumes "patterns env a = Some P" "valid_pattern P" "\<not> pat_empty P"
    "max_len M = 0 \<or> (\<exists>buf. val M = Some buf \<and> max_len M \<le> length buf)"
    "required_len P < 2 ^ 32"
  shows "reinit env a M =
     Inr (if required_len P > max_len M \<or> max_len M = 0
          then M\<lparr>cols := Some a, val := Some (replicate (required_len P) 0),
                 max_len := required_len P, allocations := allocations M + 1\<rparr>
          else M\<lparr>cols := Some a,
                 val := Some (replicate (required_len P) 0
                              @ drop (required_len P) (array_of (val M)))\<rparr>)"
proof (cases "required_len P > max_len M \<or> max_len M = 0")
  case True
  let ?M2 = "M\<lparr>cols := Some a, val := Some (replicate (required_len P) 0),
                 max_len := required_len P, allocations := allocations M + 1\<rparr>"
  have n: "to_unsigned_int
             (n_nonzero_elements (sparsity_pattern P) * chunk_size P * chunk_size P)
           = required_len P"
    using assms(5) by (simp add: to_unsigned_int_fits required_len_def)
  have "assign_scalar env 0 ?M2
        = Inr (?M2\<lparr>val := Some (replicate (required_len P) 0
                 @ drop (required_len P) (replicate (required_len P) (0::'a)))\<rparr>)"
    using assms valid_pattern_nonempty_rows[OF assms(2,3)]
    by (intro assign_scalar_zero[where a=a]) auto
  then show ?thesis using True assms(1,3)
    by (simp add: reinit_def Let_def n)
next
  case False
  then obtain buf where b: "val M = Some buf" "max_len M \<le> length buf"
    using assms(4) by auto
  let ?M2 = "M\<lparr>cols := Some a\<rparr>"
  have n: "to_unsigned_int
             (n_nonzero_elements (sparsity_pattern P) * chunk_size P * chunk_size P)
           = required_len P"
    using assms(5) by (simp add: to_unsigned_int_fits required_len_def)
  have "assign_scalar env 0 ?M2
        = Inr (?M2\<lparr>val := Some (replicate (required_len P) 0 @ drop (required_len P) buf)\<rparr>)"
    using assms b False valid_pattern_nonempty_rows[OF assms(2,3)]
    by (intro assign_scalar_zero[where a=a]) auto
  then show ?thesis using False assms(1,3) b
    by (simp add: reinit_def Let_def n array_of_def)
qed

lemma valid_pattern_3x3: "valid_pattern pattern_3x3"
  by code_simp

lemma valid_pattern_2x2: "valid_pattern pattern_2x2"
  by code_simp

lemma valid_pattern_0x0: "valid_pattern pattern_0x0"
  by code_simp

lemma valid_pattern_1x2_no_chunks: "valid_pattern pattern_1x2_no_chunks"
  by code_simp



lemma required_len_3x3: "required_len pattern_3x3 = 8"
  by (simp add: required_len_def n_nonzero_elements_def pattern_3x3_def)

lemma required_len_2x2: "required_len pattern_2x2 = 4"
  by (simp add: required_len_def n_nonzero_elements_def pattern_2x2_def)

lemma required_len_1x2_no_chunks: "required_len pattern_1x2_no_chunks = 0"
  by (simp add: required_len_def n_nonzero_elements_def pattern_1x2_no_chunks_def)

lemma reinit_3x3_default:
  "reinit example_env 0 (ChunkSparseMatrix_default :: 'a::zero ChunkSparseMatrix)
   = Inr \<lparr>cols = Some 0, val = Some [0, 0, 0, 0, 0, 0, 0, 0], max_len = 8, allocations = 1\<rparr>"
proof -
  let ?D = "ChunkSparseMatrix_default :: 'a ChunkSparseMatrix"
  have p: "patterns example_env 0 = Some pattern_3x3" by (simp add: example_env_def)
  have ne: "\<not> pat_empty pattern_3x3" by (simp add: pattern_3x3_def)
  have c: "max_len ?D = 0 \<or> (\<exists>buf. val ?D = Some buf \<and> max_len ?D \<le> length buf)"
    by (simp add: ChunkSparseMatrix_default_def)
  have fits: "required_len pattern_3x3 < 2 ^ 32" by (simp add: required_len_3x3)
  have r: "replicate 8 (0::'a) = [0, 0, 0, 0, 0, 0, 0, 0]" by (simp add: eval_nat_numeral)
  show ?thesis
    using reinit_nonempty[OF p valid_pattern_3x3 ne c fits]
    by (simp add: required_len_3x3 r ChunkSparseMatrix_default_def)
qed

lemma reinit_2x2_capacity_8:
  "reinit example_env 1
     \<lparr>cols = c, val = Some [x0, x1, x2, x3, x4, x5, x6, x7 :: 'a::zero], max_len = 8,
        allocations = k\<rparr>
   = Inr \<lparr>cols = Some 1, val = Some [0, 0, 0, 0, x4, x5, x6, x7], max_len = 8,
           allocations = k\<rparr>"
proof -
  let ?M = "\<lparr>cols = c, val = Some [x0, x1, x2, x3, x4, x5, x6, x7], max_len = 8,
             allocations = k\<rparr>"
  have p: "patterns example_env 1 = Some pattern_2x2" by (simp add: example_env_def)
  have ne: "\<not> pat_empty pattern_2x2" by (simp add: pattern_2x2_def)
  have c: "max_len ?M = 0 \<or> (\<exists>buf. val ?M = Some buf \<and> max_len ?M \<le> length buf)"
    by simp
  have fits: "required_len pattern_2x2 < 2 ^ 32" by (simp add: required_len_2x2)
  have r: "replicate 4 (0::'a) = [0, 0, 0, 0]"
    "drop 4 [x0, x1, x2, x3, x4, x5, x6, x7] = [x4, x5, x6, x7]"
    by (simp_all add: eval_nat_numeral)
  show ?thesis
    using reinit_nonempty[OF p valid_pattern_2x2 ne c fits]
    by (simp add: required_len_2x2 r array_of_def)
qed

lemma reinit_1x2_no_chunks_capacity_0:
  "reinit example_env 3
     \<lparr>cols = c, val = v, max_len = 0, allocations = k\<rparr>
   = Inr \<lparr>cols = Some 3, val = Some ([] :: 'a::zero list), max_len = 0,
           allocations = k + 1\<rparr>"
proof -
  let ?M = "\<lparr>cols = c, val = v, max_len = 0, allocations = k\<rparr>"
  have p: "patterns example_env 3 = Some pattern_1x2_no_chunks" by (simp add: example_env_def)
  have ne: "\<not> pat_empty pattern_1x2_no_chunks" by (simp add: pattern_1x2_no_chunks_def)
  have c: "max_len ?M = 0 \<or> (\<exists>buf. val ?M = Some buf \<and> max_len ?M \<le> length buf)"
    by simp
  have fits: "required_len pattern_1x2_no_chunks < 2 ^ 32"
    by (simp add: required_len_1x2_no_chunks)
  show ?thesis
    using reinit_nonempty[OF p valid_pattern_1x2_no_chunks ne c fits]
    by (simp add: required_len_1x2_no_chunks)
qed

lemma wf_matrix_capacity:
  assumes "wf_matrix env M"
  shows "max_len M = 0 \<or> (\<exists>buf. val M = Some buf \<and> max_len M \<le> length buf)"
  using assms
  by (auto simp: wf_matrix_def split: option.splits if_splits)

text \<open>
  C10: \<open>frobenius_norm()\<close> of a default-constructed matrix (no pattern, no array,
  capacity 0) is 0 and no precondition violation: the fold runs over the empty extent.
  The other norms and the products report the missing sparsity pattern.
\<close>

theorem frobenius_norm_default_matrix:
  "frobenius_norm ChunkSparseMatrix_default = Inr 0
   \<and> l1_norm env ChunkSparseMatrix_default = Inl ExcNeedsSparsityPattern
   \<and> linfty_norm env ChunkSparseMatrix_default = Inl ExcNeedsSparsityPattern
   \<and> vmult env ChunkSparseMatrix_default vecs dst src = Inl ExcNeedsSparsityPattern
   \<and> vmult_add env ChunkSparseMatrix_default vecs dst src = Inl ExcNeedsSparsityPattern
   \<and> residual env ChunkSparseMatrix_default rvecs dst u b = Inl ExcNeedsSparsityPattern"
  by (simp add: frobenius_norm_def ChunkSparseMatrix_default_def l1_norm_def linfty_norm_def
        vmult_def vmult_add_def residual_def frobenius_loop.simps)

text \<open>
  C3: binding to a pattern whose required length is smaller than the capacity is
  claimed to leave the whole allocated extent zero. The code zeroes the first
  \<open>N = chunk_size\<^sup>2 * n_nonzero_elements\<close> elements only. A matrix is bound to the
  \<open>3 \<times> 3\<close> pattern (capacity 8), its entry \<open>(2,2)\<close> is set to 7 (position 4 of the
  array), and it is bound to the \<open>2 \<times> 2\<close> pattern (\<open>N = 4\<close>): position 4 still holds 7.
\<close>

theorem reinit_smaller_pattern_keeps_stale_tail:
  "bind_err (reinit example_env 0 (ChunkSparseMatrix_default :: int ChunkSparseMatrix))
     (\<lambda>M1. bind_err (set_entry example_env 2 2 7 M1) (\<lambda>M2. reinit example_env 1 M2))
   = Inr \<lparr>cols = Some 1, val = Some [0, 0, 0, 0, 7, 0, 0, 0], max_len = 8, allocations = 1\<rparr>"
proof -
  have s: "set_entry example_env 2 2 7
             \<lparr>cols = Some 0, val = Some [0, 0, 0, 0, 0, 0, 0, 0 :: int], max_len = 8,
                allocations = 1\<rparr>
           = Inr \<lparr>cols = Some 0, val = Some [0, 0, 0, 0, 7, 0, 0, 0], max_len = 8,
                   allocations = 1\<rparr>"
    by code_simp
  show ?thesis by (simp only: reinit_3x3_default s reinit_2x2_capacity_8 bind_err_simps)
qed

text \<open>
  C7, as claimed, fails where the capacity is 0 and the pattern requires no element: a
  default-constructed matrix bound to a pattern that is not empty and stores no chunk
  gets a new array of length 0, although the required length does not exceed the
  capacity; binding it once more allocates once more.
\<close>

theorem reinit_allocates_at_capacity_zero:
  "reinit example_env 3 (ChunkSparseMatrix_default :: int ChunkSparseMatrix)
     = Inr \<lparr>cols = Some 3, val = Some [], max_len = 0, allocations = 1\<rparr>
   \<and> bind_err (reinit example_env 3 (ChunkSparseMatrix_default :: int ChunkSparseMatrix))
         (reinit example_env 3)
     = Inr \<lparr>cols = Some 3, val = Some [], max_len = 0, allocations = 2\<rparr>
   \<and> \<not> pat_empty pattern_1x2_no_chunks
   \<and> \<not> required_len pattern_1x2_no_chunks
         > max_len (ChunkSparseMatrix_default :: int ChunkSparseMatrix)"
proof -
  have ne: "\<not> pat_empty pattern_1x2_no_chunks" by (simp add: pattern_1x2_no_chunks_def)
  show ?thesis
    using reinit_1x2_no_chunks_capacity_0[of None "None :: int list option" 0]
      reinit_1x2_no_chunks_capacity_0[of "Some 3" "Some ([] :: int list)" 1] ne
    by (simp add: ChunkSparseMatrix_default_def required_len_1x2_no_chunks)
qed

text \<open>
  C7, amended: binding a well-formed matrix to a valid pattern that is not empty and
  whose required length fits \<open>size_type\<close> (it is less than \<open>2\<^sup>3\<^sup>2\<close>) succeeds and
  keeps the matrix well-formed; the capacity does not decrease; a new array is allocated
  exactly when the required length exceeds the capacity or the capacity is 0; and where
  the required length is at most a positive capacity, capacity and array stay. Without
  the bound on the required length the code computes \<open>N\<close> modulo \<open>2\<^sup>3\<^sup>2\<close> and the
  statement is lost, see \<open>reinit_required_length_wraps\<close>.
\<close>

theorem reinit_capacity_monotone:
  assumes "wf_matrix env M" "patterns env a = Some P" "valid_pattern P" "\<not> pat_empty P"
    "required_len P < 2 ^ 32"
  shows "\<exists>M'. reinit env a M = Inr M' \<and> wf_matrix env M'
           \<and> max_len M \<le> max_len M'
           \<and> allocations M' = (if required_len P > max_len M \<or> max_len M = 0
                                then allocations M + 1 else allocations M)
           \<and> (required_len P \<le> max_len M \<and> 0 < max_len M
                \<longrightarrow> max_len M' = max_len M \<and> allocations M' = allocations M)"
proof (cases "required_len P > max_len M \<or> max_len M = 0")
  case True
  then show ?thesis
    using reinit_nonempty[OF assms(2,3,4) wf_matrix_capacity[OF assms(1)] assms(5)] assms(2,3,4)
    by (auto simp: wf_matrix_def)
next
  case False
  then obtain buf where b: "val M = Some buf" "max_len M \<le> length buf"
    using wf_matrix_capacity[OF assms(1)] by auto
  have l: "length buf = max_len M"
    using assms(1) b False by (auto simp: wf_matrix_def split: option.splits if_splits)
  show ?thesis
    using reinit_nonempty[OF assms(2,3,4) wf_matrix_capacity[OF assms(1)] assms(5)]
      assms(2,3,4) False b l
    by (auto simp: wf_matrix_def array_of_def)
qed

theorem reinit_capacity_monotone_witness:
  "\<exists>M'. reinit example_env 1
           \<lparr>cols = Some 0, val = Some [0, 0, 0, 0, 7, 0, 0, 0 :: int], max_len = 8,
            allocations = 1\<rparr> = Inr M'
        \<and> max_len M' = 8 \<and> allocations M' = 1"
proof -
  let ?M = "\<lparr>cols = Some 0, val = Some [0, 0, 0, 0, 7, 0, 0, 0 :: int], max_len = 8,
             allocations = 1\<rparr>"
  have h1: "wf_matrix example_env ?M" by code_simp
  have h2: "patterns example_env 1 = Some pattern_2x2" by (simp add: example_env_def)
  have h3: "\<not> pat_empty pattern_2x2" by (simp add: pattern_2x2_def)
  have h4: "required_len pattern_2x2 = 4" by code_simp
  have h5: "required_len pattern_2x2 < 2 ^ 32" by (simp add: h4)
  from reinit_capacity_monotone[OF h1 h2 valid_pattern_2x2 h3 h5] h4
  show ?thesis by auto
qed

text \<open>
  Why the required length is bounded: the pattern of one chunk of \<open>65536 \<times> 65536\<close>
  elements is valid and requires \<open>2\<^sup>3\<^sup>2\<close> elements. \<open>N\<close> and \<open>matrix_size\<close> wrap
  to 0. A matrix of capacity 8 is bound to the pattern with its array of 8 elements, not
  reallocated and not zeroed; a default-constructed matrix gets an array of length 0.
\<close>

lemma reinit_required_length_wraps:
  assumes "patterns env a = Some pattern_one_large_chunk"
  shows "valid_pattern pattern_one_large_chunk"
    "required_len pattern_one_large_chunk = 2 ^ 32"
    "reinit env a \<lparr>cols = c, val = Some buf, max_len = 8, allocations = k\<rparr>
     = Inr \<lparr>cols = Some a, val = Some buf, max_len = 8, allocations = k\<rparr>"
    "reinit env a ChunkSparseMatrix_default
     = Inr \<lparr>cols = Some a, val = Some [], max_len = 0, allocations = 1\<rparr>"
proof -
  show "valid_pattern pattern_one_large_chunk"
    by (simp add: valid_pattern_def pattern_one_large_chunk_def Let_def)
  show "required_len pattern_one_large_chunk = 2 ^ 32"
    by (simp add: required_len_def n_nonzero_elements_def pattern_one_large_chunk_def)
  have n: "to_unsigned_int
             (n_nonzero_elements (sparsity_pattern pattern_one_large_chunk)
              * chunk_size pattern_one_large_chunk * chunk_size pattern_one_large_chunk) = 0"
    by (simp add: to_unsigned_int_def n_nonzero_elements_def pattern_one_large_chunk_def)
  have p: "\<not> pat_empty pattern_one_large_chunk" "n_rows pattern_one_large_chunk \<noteq> 0"
    "compressed (sparsity_pattern pattern_one_large_chunk)"
    by (simp_all add: pattern_one_large_chunk_def)
  show "reinit env a \<lparr>cols = c, val = Some buf, max_len = 8, allocations = k\<rparr>
        = Inr \<lparr>cols = Some a, val = Some buf, max_len = 8, allocations = k\<rparr>"
    using assms p by (simp add: reinit_def assign_scalar_def Let_def n)
  show "reinit env a ChunkSparseMatrix_default
        = Inr \<lparr>cols = Some a, val = Some [], max_len = 0, allocations = 1\<rparr>"
    using assms p
    by (simp add: reinit_def assign_scalar_def Let_def n ChunkSparseMatrix_default_def)
qed


subsection \<open>Copying between matrices\<close>





subsection \<open>The geometry of a valid pattern\<close>

lemma valid_patternD:
  assumes "valid_pattern P"
  shows "0 < chunk_size P"
    "sp_rows (sparsity_pattern P) = (n_rows P + chunk_size P - 1) div chunk_size P"
    "sp_cols (sparsity_pattern P) = (n_cols P + chunk_size P - 1) div chunk_size P"
    "length (rowstart (sparsity_pattern P)) = sp_rows (sparsity_pattern P) + 1"
    "rowstart (sparsity_pattern P) ! 0 = 0"
    "rowstart (sparsity_pattern P) ! sp_rows (sparsity_pattern P)
       = length (colnums (sparsity_pattern P))"
    "\<And>i. i < sp_rows (sparsity_pattern P)
       \<Longrightarrow> rowstart (sparsity_pattern P) ! i \<le> rowstart (sparsity_pattern P) ! (i + 1)"
    "\<And>k. k < length (colnums (sparsity_pattern P))
       \<Longrightarrow> colnums (sparsity_pattern P) ! k < sp_cols (sparsity_pattern P)"
    "\<And>i. i < sp_rows (sparsity_pattern P)
       \<Longrightarrow> distinct (map (\<lambda>k. colnums (sparsity_pattern P) ! k)
             [rowstart (sparsity_pattern P) ! i..<rowstart (sparsity_pattern P) ! (i + 1)])"
  using assms by (auto simp: valid_pattern_def Let_def)

lemma rowstart_mono:
  assumes "valid_pattern P" "i \<le> j" "j \<le> sp_rows (sparsity_pattern P)"
  shows "rowstart (sparsity_pattern P) ! i \<le> rowstart (sparsity_pattern P) ! j"
  using assms(2,3)
proof (induction j)
  case 0
  then show ?case by simp
next
  case (Suc j)
  show ?case
  proof (cases "i = Suc j")
    case True
    then show ?thesis by simp
  next
    case False
    with Suc.prems have "i \<le> j" "j < sp_rows (sparsity_pattern P)" by auto
    with Suc.IH valid_patternD(7)[OF assms(1), of j] show ?thesis by simp
  qed
qed

lemma rowstart_le_nnz:
  assumes "valid_pattern P" "i \<le> sp_rows (sparsity_pattern P)"
  shows "rowstart (sparsity_pattern P) ! i \<le> length (colnums (sparsity_pattern P))"
  using rowstart_mono[OF assms(1) assms(2) order_refl] valid_patternD(6)[OF assms(1)] by simp

lemma chunk_rows_cover:
  assumes "valid_pattern P" "i < n_rows P"
  shows "i div chunk_size P < sp_rows (sparsity_pattern P)"
proof -
  let ?cs = "chunk_size P"
  have cs: "0 < ?cs" using valid_patternD(1)[OF assms(1)] .
  have "i div ?cs * ?cs \<le> i" by simp
  then have "i div ?cs * ?cs + ?cs \<le> n_rows P + ?cs - 1" using assms(2) by linarith
  then have "(i div ?cs + 1) * ?cs \<le> n_rows P + ?cs - 1" by (simp add: algebra_simps)
  then have "i div ?cs + 1 \<le> (n_rows P + ?cs - 1) div ?cs"
    using cs by (simp add: less_eq_div_iff_mult_less_eq)
  then show ?thesis using valid_patternD(2)[OF assms(1)] by simp
qed

lemma ceil_div_padded:
  fixes m c :: nat
  assumes "0 < c" "m mod c \<noteq> 0"
  shows "(m + c - 1) div c = m div c + 1"
proof -
  define q where "q = m div c"
  define r where "r = m mod c"
  have m: "m = q * c + r" by (simp add: q_def r_def)
  have r: "0 < r" "r < c" using assms by (auto simp: r_def)
  have "m + c - 1 = (r - 1) + (q + 1) * c" using r unfolding m by (simp add: algebra_simps)
  moreover have "((r - 1) + (q + 1) * c) div c = (q + 1) + (r - 1) div c"
    by (rule div_mult_self1) (use assms(1) in simp)
  moreover have "(r - 1) div c = 0" using r by simp
  ultimately show ?thesis by (simp add: q_def)
qed

lemma ceil_div_exact:
  fixes m c :: nat
  assumes "0 < c" "m mod c = 0"
  shows "(m + c - 1) div c = m div c"
proof -
  define q where "q = m div c"
  have m: "m = q * c" using assms(2) by (auto simp: q_def)
  have "m + c - 1 = (c - 1) + q * c" using assms(1) unfolding m by (simp add: algebra_simps)
  moreover have "((c - 1) + q * c) div c = q + (c - 1) div c"
    by (rule div_mult_self1) (use assms(1) in simp)
  moreover have "(c - 1) div c = 0" using assms(1) by simp
  ultimately show ?thesis by (simp add: q_def)
qed

lemma last_chunk_row:
  assumes "valid_pattern P" "n_rows P mod chunk_size P \<noteq> 0"
  shows "sp_rows (sparsity_pattern P) = n_rows P div chunk_size P + 1"
  using ceil_div_padded[OF valid_patternD(1)[OF assms(1)] assms(2)] valid_patternD(2)[OF assms(1)]
  by simp

lemma last_chunk_col:
  assumes "valid_pattern P" "n_cols P mod chunk_size P \<noteq> 0"
  shows "sp_cols (sparsity_pattern P) = n_cols P div chunk_size P + 1"
  using ceil_div_padded[OF valid_patternD(1)[OF assms(1)] assms(2)] valid_patternD(3)[OF assms(1)]
  by simp

lemma exact_chunk_rows:
  assumes "valid_pattern P" "n_rows P mod chunk_size P = 0"
  shows "sp_rows (sparsity_pattern P) = n_rows P div chunk_size P"
  using ceil_div_exact[OF valid_patternD(1)[OF assms(1)] assms(2)] valid_patternD(2)[OF assms(1)]
  by simp

lemma exact_chunk_cols:
  assumes "valid_pattern P" "n_cols P mod chunk_size P = 0"
  shows "sp_cols (sparsity_pattern P) = n_cols P div chunk_size P"
  using ceil_div_exact[OF valid_patternD(1)[OF assms(1)] assms(2)] valid_patternD(3)[OF assms(1)]
  by simp

lemma stored_slotD:
  assumes "stored_slot P ci cj = Some k"
  shows "rowstart (sparsity_pattern P) ! ci \<le> k"
    "k < rowstart (sparsity_pattern P) ! (ci + 1)"
    "colnums (sparsity_pattern P) ! k = cj"
  using assms by (auto simp: stored_slot_def Let_def find_Some_iff)

lemma chunk_position_decode:
  fixes k r c cs :: nat
  assumes "r < cs" "c < cs"
  shows "(k * cs * cs + r * cs + c) div (cs * cs) = k"
    "(k * cs * cs + r * cs + c) mod (cs * cs) div cs = r"
    "(k * cs * cs + r * cs + c) mod cs = c"
    "k * cs * cs + r * cs + c < (k + 1) * cs * cs"
proof -
  have lt: "r * cs + c < cs * cs"
  proof -
    have "r * cs + c < r * cs + cs" using assms(2) by simp
    also have "\<dots> = (r + 1) * cs" by simp
    also have "\<dots> \<le> cs * cs" using assms(1) by (intro mult_le_mono1) simp
    finally show ?thesis .
  qed
  have e: "k * cs * cs + r * cs + c = (r * cs + c) + k * (cs * cs)" by (simp add: algebra_simps)
  have nz: "cs * cs \<noteq> 0" "cs \<noteq> 0" using assms(1) by auto
  have "((r * cs + c) + k * (cs * cs)) div (cs * cs) = k + (r * cs + c) div (cs * cs)"
    by (rule div_mult_self1) (rule nz)
  then show "(k * cs * cs + r * cs + c) div (cs * cs) = k"
    unfolding e using lt by simp
  have "((r * cs + c) + k * (cs * cs)) mod (cs * cs) = (r * cs + c) mod (cs * cs)"
    by (rule mod_mult_self1)
  then have m: "(k * cs * cs + r * cs + c) mod (cs * cs) = r * cs + c"
    unfolding e using lt by simp
  have "(c + r * cs) div cs = r + c div cs"
    by (rule div_mult_self1) (rule nz)
  then show "(k * cs * cs + r * cs + c) mod (cs * cs) div cs = r"
    unfolding m using assms(2) by (simp add: add.commute)
  have e2: "k * cs * cs + r * cs + c = c + (k * cs + r) * cs" by (simp add: algebra_simps)
  have "(c + (k * cs + r) * cs) mod cs = c mod cs"
    by (rule mod_mult_self1)
  then show "(k * cs * cs + r * cs + c) mod cs = c" unfolding e2 using assms(2) by simp
  show "k * cs * cs + r * cs + c < (k + 1) * cs * cs"
    using lt by (simp add: algebra_simps)
qed

lemma compute_location_logical:
  assumes v: "valid_pattern P" and i: "i < n_rows P" and j: "j < n_cols P"
    and loc: "compute_location P i j = Some idx"
  shows "idx < required_len P" "\<not> padding_position P idx"
proof -
  let ?cs = "chunk_size P" and ?sp = "sparsity_pattern P"
  have cs: "0 < ?cs" using valid_patternD(1)[OF v] .
  from loc obtain k where k: "stored_slot P (i div ?cs) (j div ?cs) = Some k"
    and idx: "idx = k * ?cs * ?cs + (i mod ?cs) * ?cs + j mod ?cs"
    by (auto simp: compute_location_def split: option.splits)
  note kk = stored_slotD[OF k]
  have r: "i mod ?cs < ?cs" and c: "j mod ?cs < ?cs" using cs by auto
  note dec = chunk_position_decode[OF r c, of k, folded idx]
  have ci: "i div ?cs < sp_rows ?sp" using chunk_rows_cover[OF v i] .
  have "rowstart ?sp ! (i div ?cs + 1) \<le> length (colnums ?sp)"
    using rowstart_le_nnz[OF v, of "i div ?cs + 1"] ci by simp
  with kk(2) have "k + 1 \<le> length (colnums ?sp)" by simp
  then have "(k + 1) * ?cs \<le> length (colnums ?sp) * ?cs"
    by (rule mult_le_mono1)
  then have "(k + 1) * ?cs * ?cs \<le> length (colnums ?sp) * ?cs * ?cs"
    by (rule mult_le_mono1)
  with dec(4) have "idx < length (colnums ?sp) * ?cs * ?cs"
    by (rule less_le_trans)
  then show "idx < required_len P"
    by (simp add: required_len_def n_nonzero_elements_def)
  have row: "\<not> (n_rows P mod ?cs \<noteq> 0 \<and> rowstart ?sp ! (sp_rows ?sp - 1) \<le> k
                 \<and> n_rows P mod ?cs \<le> i mod ?cs)"
  proof
    assume h: "n_rows P mod ?cs \<noteq> 0 \<and> rowstart ?sp ! (sp_rows ?sp - 1) \<le> k
                 \<and> n_rows P mod ?cs \<le> i mod ?cs"
    have last: "sp_rows ?sp = n_rows P div ?cs + 1" using last_chunk_row[OF v] h by simp
    have "i div ?cs = n_rows P div ?cs"
    proof (rule ccontr)
      assume "i div ?cs \<noteq> n_rows P div ?cs"
      with ci last have "i div ?cs + 1 \<le> sp_rows ?sp - 1" by simp
      then have "rowstart ?sp ! (i div ?cs + 1) \<le> rowstart ?sp ! (sp_rows ?sp - 1)"
        by (intro rowstart_mono[OF v]) auto
      with kk(2) h show False by simp
    qed
    moreover have "i = i div ?cs * ?cs + i mod ?cs" "n_rows P = n_rows P div ?cs * ?cs + n_rows P mod ?cs"
      by simp_all
    ultimately have "i mod ?cs < n_rows P mod ?cs" using i by (metis nat_add_left_cancel_less)
    with h show False by simp
  qed
  have col: "\<not> (n_cols P mod ?cs \<noteq> 0 \<and> colnums ?sp ! k = sp_cols ?sp - 1
                 \<and> n_cols P mod ?cs \<le> j mod ?cs)"
  proof
    assume h: "n_cols P mod ?cs \<noteq> 0 \<and> colnums ?sp ! k = sp_cols ?sp - 1
                 \<and> n_cols P mod ?cs \<le> j mod ?cs"
    have last: "sp_cols ?sp = n_cols P div ?cs + 1" using last_chunk_col[OF v] h by simp
    have "j div ?cs = n_cols P div ?cs" using kk(3) h last by simp
    moreover have "j = j div ?cs * ?cs + j mod ?cs" "n_cols P = n_cols P div ?cs * ?cs + n_cols P mod ?cs"
      by simp_all
    ultimately have "j mod ?cs < n_cols P mod ?cs" using j by (metis nat_add_left_cancel_less)
    with h show False by simp
  qed
  show "\<not> padding_position P idx"
    using row col dec(1,2,3) by (simp add: padding_position_def Let_def)
qed

subsection \<open>The padding invariant\<close>









lemma padding_position_3x3:
  "padding_position pattern_3x3 p \<longleftrightarrow> p = 5 \<or> p = 6 \<or> p = 7"
proof (cases "p < 8")
  case False
  then show ?thesis by (simp add: padding_position_def required_len_3x3 Let_def)
next
  case True
  then consider "p = 0" | "p = 1" | "p = 2" | "p = 3" | "p = 4" | "p = 5" | "p = 6" | "p = 7"
    by linarith
  then show ?thesis
    by cases (simp_all add: padding_position_def required_len_3x3 Let_def, simp_all add: pattern_3x3_def)
qed

lemma padding_zero_3x3_example: "padding_zero pattern_3x3 [0, 0, 0, 0, 5, 0, 0, 0 :: int]"
  by (auto simp: padding_zero_def padding_position_3x3)



subsection \<open>Loops and the chunk kernels\<close>

lemma for_loop_append:
  "for_loop (xs @ ys) f s = bind_err (for_loop xs f s) (for_loop ys f)"
  by (induction xs arbitrary: s) (auto split: sum.splits)

lemma for_loop_single: "for_loop [n] f s = f n s"
  by (cases "f n s") simp_all

lemma for_loop_snoc:
  "for_loop (xs @ [n]) f s = bind_err (for_loop xs f s) (f n)"
  by (cases "for_loop xs f s") (auto simp: for_loop_append split: sum.splits)

lemma rd_Inr [simp]: "i < length xs \<Longrightarrow> rd xs i = Inr (xs ! i)"
  by (simp add: rd_def)

lemma vec_at_Inr [simp]: "i < length xs \<Longrightarrow> vec_at xs i = Inr (xs ! i)"
  by (simp add: vec_at_def)

lemma upd_Inr [simp]: "i < length xs \<Longrightarrow> upd xs i f = Inr (xs[i := f (xs ! i)])"
  by (simp add: upd_def)

lemma vec_upd_Inr [simp]: "i < length xs \<Longrightarrow> vec_upd xs i f = Inr (xs[i := f (xs ! i)])"
  by (simp add: vec_upd_def)

lemma length_add_rows [simp]: "length (add_rows dst lo hi f) = length dst"
  by (simp add: add_rows_def)

lemma nth_add_rows:
  "q < length dst \<Longrightarrow>
   add_rows dst lo hi f ! q = (if lo \<le> q \<and> q < hi then dst ! q + f q else dst ! q)"
  by (simp add: add_rows_def)

lemma add_rows_empty [simp]: "add_rows dst lo lo f = dst"
  by (intro nth_equalityI) (auto simp: nth_add_rows)

lemma add_rows_step:
  fixes dst :: "'a::comm_ring_1 list"
  assumes "lo \<le> hi" "hi < length dst"
  shows "(add_rows dst lo hi f)[hi := add_rows dst lo hi f ! hi + f hi] = add_rows dst lo (Suc hi) f"
  using assms by (intro nth_equalityI) (auto simp: nth_add_rows nth_list_update)

lemma add_rows_adjacent:
  assumes "a \<le> b" "b \<le> c"
  shows "add_rows (add_rows dst a b f) b c f = add_rows dst a c f"
  using assms by (intro nth_equalityI) (auto simp: nth_add_rows)

lemma add_rows_same_range:
  "add_rows (add_rows dst a b f) a b g = add_rows dst a b (\<lambda>q. f q + g q)"
  by (intro nth_equalityI) (auto simp: nth_add_rows add.assoc)

lemma add_rows_cong:
  assumes "\<And>q. a \<le> q \<Longrightarrow> q < b \<Longrightarrow> q < length dst \<Longrightarrow> f q = g q"
  shows "add_rows dst a b f = add_rows dst a b g"
  using assms by (intro nth_equalityI) (auto simp: nth_add_rows)

text \<open>The inner loop of the block kernels: a sum in a local variable.\<close>

lemma inner_sum_loop:
  assumes "vp + n \<le> length (values :: 'a::comm_ring_1 list)" "sp + n \<le> length src"
  shows "for_loop [0..<n] (\<lambda>j sum.
            bind_err (rd values (vp + j)) (\<lambda>a.
            bind_err (rd src (sp + j)) (\<lambda>x. Inr (sum + a * x)))) s
         = Inr (s + (\<Sum>c<n. values ! (vp + c) * src ! (sp + c)))"
  using assms
proof (induction n)
  case 0
  then show ?case by simp
next
  case (Suc n)
  then show ?case by (simp add: for_loop_snoc add.assoc)
qed

text \<open>The inner loop of the element-wise fallback: accumulation in the destination.\<close>

lemma inner_acc_loop:
  assumes "vp + n \<le> length (values :: 'a::comm_ring_1 list)" "sp + n \<le> length src" "i < length dst"
  shows "for_loop [0..<n] (\<lambda>c dst.
            bind_err (rd values (vp + c)) (\<lambda>a.
            bind_err (vec_at src (sp + c)) (\<lambda>x.
              upd dst i (\<lambda>y. y + a * x)))) dst
         = Inr (dst[i := dst ! i + (\<Sum>c<n. values ! (vp + c) * src ! (sp + c))])"
  using assms
proof (induction n)
  case 0
  then show ?case by simp
next
  case (Suc n)
  then show ?case by (simp add: for_loop_snoc add.assoc)
qed

lemma inner_sub_loop:
  assumes "vp + n \<le> length (values :: 'a::comm_ring_1 list)" "sp + n \<le> length src" "i < length dst"
  shows "for_loop [0..<n] (\<lambda>c dst.
            bind_err (rd values (vp + c)) (\<lambda>a.
            bind_err (vec_at src (sp + c)) (\<lambda>x.
              vec_upd dst i (\<lambda>y. y - a * x)))) dst
         = Inr (dst[i := dst ! i + - (\<Sum>c<n. values ! (vp + c) * src ! (sp + c))])"
  using assms
proof (induction n)
  case 0
  then show ?case by simp
next
  case (Suc n)
  then show ?case by (simp add: for_loop_snoc algebra_simps)
qed

lemma row_in_chunk:
  fixes n cs :: nat
  assumes "n < cs"
  shows "n * cs + cs \<le> cs * cs"
proof -
  have "n * cs + cs = (n + 1) * cs" by simp
  also have "\<dots> \<le> cs * cs" using assms by (intro mult_le_mono1) simp
  finally show ?thesis .
qed

lemma chunk_vmult_add_prefix:
  assumes "vp + cs * cs \<le> length (values :: 'a::comm_ring_1 list)" "sp + cs \<le> length src"
    "dp + cs \<le> length dst" "n \<le> cs"
  shows "for_loop [0..<n] (\<lambda>i dst_vec.
       bind_err
         (for_loop [0..<cs] (\<lambda>j sum.
            bind_err (rd values (vp + i * cs + j)) (\<lambda>a.
            bind_err (rd src (sp + j)) (\<lambda>x.
              Inr (sum + a * x))))
            0)
         (\<lambda>sum. upd dst_vec (dp + i) (\<lambda>y. y + sum)))
       dst
     = Inr (add_rows dst dp (dp + n) (\<lambda>q. chunk_row_sum cs values vp src sp cs (q - dp)))"
  using assms(4)
proof (induction n)
  case 0
  then show ?case by simp
next
  case (Suc n)
  let ?g = "\<lambda>q. chunk_row_sum cs values vp src sp cs (q - dp)"
  let ?D = "add_rows dst dp (dp + n) ?g"
  have n: "n < cs" using Suc.prems by simp
  have b: "vp + n * cs + cs \<le> length values"
    using row_in_chunk[OF n] assms(1) by linarith
  have inner: "for_loop [0..<cs] (\<lambda>j sum.
            bind_err (rd values (vp + n * cs + j)) (\<lambda>a.
            bind_err (rd src (sp + j)) (\<lambda>x.
              Inr (sum + a * x))))
            0 = Inr (?g (dp + n))"
    using inner_sum_loop[OF b assms(2), of 0] by (simp add: chunk_row_sum_def)
  have d: "dp + n < length ?D" using n assms(3) by simp
  have step: "?D[dp + n := ?D ! (dp + n) + ?g (dp + n)] = add_rows dst dp (Suc (dp + n)) ?g"
    using n assms(3) by (intro add_rows_step) auto
  show ?case
    using Suc.IH n inner d step by (simp add: for_loop_snoc)
qed

lemma chunk_vmult_add_rows:
  assumes "vp + cs * cs \<le> length (values :: 'a::comm_ring_1 list)" "sp + cs \<le> length src"
    "dp + cs \<le> length dst"
  shows "chunk_vmult_add cs values vp src sp dst dp
         = Inr (add_rows dst dp (dp + cs) (\<lambda>q. chunk_row_sum cs values vp src sp cs (q - dp)))"
  unfolding chunk_vmult_add_def
  by (rule chunk_vmult_add_prefix[OF assms order_refl])

lemma chunk_vmult_subtract_prefix:
  assumes "vp + cs * cs \<le> length (values :: 'a::comm_ring_1 list)" "sp + cs \<le> length src"
    "dp + cs \<le> length dst" "n \<le> cs"
  shows "for_loop [0..<n] (\<lambda>i dst_vec.
       bind_err
         (for_loop [0..<cs] (\<lambda>j sum.
            bind_err (rd values (vp + i * cs + j)) (\<lambda>a.
            bind_err (rd src (sp + j)) (\<lambda>x.
              Inr (sum + a * x))))
            0)
         (\<lambda>sum. upd dst_vec (dp + i) (\<lambda>y. y - sum)))
       dst
     = Inr (add_rows dst dp (dp + n) (\<lambda>q. - chunk_row_sum cs values vp src sp cs (q - dp)))"
  using assms(4)
proof (induction n)
  case 0
  then show ?case by simp
next
  case (Suc n)
  let ?g = "\<lambda>q. chunk_row_sum cs values vp src sp cs (q - dp)"
  let ?D = "add_rows dst dp (dp + n) (\<lambda>q. - ?g q)"
  have n: "n < cs" using Suc.prems by simp
  have b: "vp + n * cs + cs \<le> length values"
    using row_in_chunk[OF n] assms(1) by linarith
  have inner: "for_loop [0..<cs] (\<lambda>j sum.
            bind_err (rd values (vp + n * cs + j)) (\<lambda>a.
            bind_err (rd src (sp + j)) (\<lambda>x.
              Inr (sum + a * x))))
            0 = Inr (?g (dp + n))"
    using inner_sum_loop[OF b assms(2), of 0] by (simp add: chunk_row_sum_def)
  have d: "dp + n < length ?D" using n assms(3) by simp
  have step: "?D[dp + n := ?D ! (dp + n) + - ?g (dp + n)]
              = add_rows dst dp (Suc (dp + n)) (\<lambda>q. - ?g q)"
    using n assms(3) by (intro add_rows_step) auto
  show ?case
    using Suc.IH n inner d step by (simp add: for_loop_snoc)
qed

lemma chunk_vmult_subtract_rows:
  assumes "vp + cs * cs \<le> length (values :: 'a::comm_ring_1 list)" "sp + cs \<le> length src"
    "dp + cs \<le> length dst"
  shows "chunk_vmult_subtract cs values vp src sp dst dp
         = Inr (add_rows dst dp (dp + cs) (\<lambda>q. - chunk_row_sum cs values vp src sp cs (q - dp)))"
  unfolding chunk_vmult_subtract_def
  by (rule chunk_vmult_subtract_prefix[OF assms order_refl])

lemma padded_chunk_add_prefix:
  assumes "vp + cs * cs \<le> length (values :: 'a::comm_ring_1 list)" "col * cs + n_c \<le> length src"
    "dp + n_r \<le> length dst" "n_r \<le> cs" "n_c \<le> cs" "n \<le> n_r"
  shows "for_loop [0..<n] (\<lambda>r.
       for_loop [0..<n_c] (\<lambda>c dst.
         bind_err (rd values (vp + (r * cs + c))) (\<lambda>a.
         bind_err (vec_at src (col * cs + c)) (\<lambda>x.
           upd dst (dp + r) (\<lambda>y. y + a * x)))))
       dst
     = Inr (add_rows dst dp (dp + n)
              (\<lambda>q. chunk_row_sum cs values vp src (col * cs) n_c (q - dp)))"
  using assms(6)
proof (induction n)
  case 0
  then show ?case by simp
next
  case (Suc n)
  let ?g = "\<lambda>q. chunk_row_sum cs values vp src (col * cs) n_c (q - dp)"
  let ?D = "add_rows dst dp (dp + n) ?g"
  have n: "n < cs" "n < n_r" using Suc.prems assms(4) by simp_all
  have b: "vp + n * cs + n_c \<le> length values"
    using row_in_chunk[OF n(1)] assms(1,5) by linarith
  have d: "dp + n < length ?D" using n assms(3) by simp
  have inner: "for_loop [0..<n_c] (\<lambda>c dst.
         bind_err (rd values (vp + (n * cs + c))) (\<lambda>a.
         bind_err (vec_at src (col * cs + c)) (\<lambda>x.
           upd dst (dp + n) (\<lambda>y. y + a * x)))) ?D
       = Inr (?D[dp + n := ?D ! (dp + n) + ?g (dp + n)])"
    using inner_acc_loop[OF b assms(2) d] by (simp add: chunk_row_sum_def add.assoc)
  have step: "?D[dp + n := ?D ! (dp + n) + ?g (dp + n)] = add_rows dst dp (Suc (dp + n)) ?g"
    using n assms(3) by (intro add_rows_step) auto
  show ?case
    using Suc.IH n inner step by (simp add: for_loop_snoc)
qed

lemma padded_chunk_add_rows:
  assumes "vp + cs * cs \<le> length (values :: 'a::comm_ring_1 list)" "col * cs + n_c \<le> length src"
    "dp + n_r \<le> length dst" "n_r \<le> cs" "n_c \<le> cs"
  shows "padded_chunk_add cs n_r n_c values vp src col dst dp
         = Inr (add_rows dst dp (dp + n_r)
              (\<lambda>q. chunk_row_sum cs values vp src (col * cs) n_c (q - dp)))"
  unfolding padded_chunk_add_def
  by (rule padded_chunk_add_prefix[OF assms order_refl])

lemma padded_chunk_subtract_prefix:
  assumes "vp + cs * cs \<le> length (values :: 'a::comm_ring_1 list)" "col * cs + n_c \<le> length u"
    "chunk_row * cs + n_r \<le> length dst" "n_r \<le> cs" "n_c \<le> cs" "n \<le> n_r"
  shows "for_loop [0..<n] (\<lambda>r.
       for_loop [0..<n_c] (\<lambda>c dst.
         bind_err (rd values (vp + (r * cs + c))) (\<lambda>a.
         bind_err (vec_at u (col * cs + c)) (\<lambda>x.
           vec_upd dst (chunk_row * cs + r) (\<lambda>y. y - a * x)))))
       dst
     = Inr (add_rows dst (chunk_row * cs) (chunk_row * cs + n)
              (\<lambda>q. - chunk_row_sum cs values vp u (col * cs) n_c (q - chunk_row * cs)))"
  using assms(6)
proof (induction n)
  case 0
  then show ?case by simp
next
  case (Suc n)
  let ?dp = "chunk_row * cs"
  let ?g = "\<lambda>q. chunk_row_sum cs values vp u (col * cs) n_c (q - ?dp)"
  let ?D = "add_rows dst ?dp (?dp + n) (\<lambda>q. - ?g q)"
  have n: "n < cs" "n < n_r" using Suc.prems assms(4) by simp_all
  have b: "vp + n * cs + n_c \<le> length values"
    using row_in_chunk[OF n(1)] assms(1,5) by linarith
  have d: "?dp + n < length ?D" using n assms(3) by simp
  have inner: "for_loop [0..<n_c] (\<lambda>c dst.
         bind_err (rd values (vp + (n * cs + c))) (\<lambda>a.
         bind_err (vec_at u (col * cs + c)) (\<lambda>x.
           vec_upd dst (?dp + n) (\<lambda>y. y - a * x)))) ?D
       = Inr (?D[?dp + n := ?D ! (?dp + n) + - ?g (?dp + n)])"
    using inner_sub_loop[OF b assms(2) d] by (simp add: chunk_row_sum_def add.assoc)
  have step: "?D[?dp + n := ?D ! (?dp + n) + - ?g (?dp + n)]
              = add_rows dst ?dp (Suc (?dp + n)) (\<lambda>q. - ?g q)"
    using n assms(3) by (intro add_rows_step) auto
  show ?case
    using Suc.IH n inner step by (simp add: for_loop_snoc)
qed

lemma padded_chunk_subtract_rows:
  assumes "vp + cs * cs \<le> length (values :: 'a::comm_ring_1 list)" "col * cs + n_c \<le> length u"
    "chunk_row * cs + n_r \<le> length dst" "n_r \<le> cs" "n_c \<le> cs"
  shows "padded_chunk_subtract cs n_r n_c values vp u col dst chunk_row
         = Inr (add_rows dst (chunk_row * cs) (chunk_row * cs + n_r)
              (\<lambda>q. - chunk_row_sum cs values vp u (col * cs) n_c (q - chunk_row * cs)))"
  unfolding padded_chunk_subtract_def
  by (rule padded_chunk_subtract_prefix[OF assms order_refl])

lemma chunk_while_fold:
  assumes "0 < stride" "k \<le> k_end" "k_end \<le> length colnums_arr"
    "\<And>q d. k \<le> q \<Longrightarrow> q < k_end \<Longrightarrow> I d
       \<Longrightarrow> body (q * stride) (colnums_arr ! q) d = Inr (g q d) \<and> I (g q d)"
    "I d"
  shows "chunk_while body colnums_arr stride (k_end * stride) (k * stride) k d
           = Inr (k_end * stride, k_end, fold g [k..<k_end] d)
         \<and> I (fold g [k..<k_end] d)"
  using assms(2,4,5)
proof (induction "k_end - k" arbitrary: k d)
  case 0
  then have "k = k_end" by simp
  then show ?case using "0.prems" by (simp add: chunk_while.simps)
next
  case (Suc n)
  then have lt: "k < k_end" by simp
  then have ne: "k * stride \<noteq> k_end * stride" using assms(1) by simp
  have kl: "k < length colnums_arr" using lt assms(3) by simp
  have b: "body (k * stride) (colnums_arr ! k) d = Inr (g k d)" "I (g k d)"
    using Suc.prems(2)[of k d] lt Suc.prems(3) by simp_all
  have ih: "chunk_while body colnums_arr stride (k_end * stride) (Suc k * stride) (Suc k) (g k d)
           = Inr (k_end * stride, k_end, fold g [Suc k..<k_end] (g k d))
         \<and> I (fold g [Suc k..<k_end] (g k d))"
  proof (rule Suc.hyps(1))
    show "n = k_end - Suc k" using Suc.hyps(2) by simp
    show "Suc k \<le> k_end" using lt by simp
    show "I (g k d)" by (rule b(2))
    fix q d' assume "Suc k \<le> q" "q < k_end" "I d'"
    then show "body (q * stride) (colnums_arr ! q) d' = Inr (g q d') \<and> I (g q d')"
      using Suc.prems(2)[of q d'] by simp
  qed
  have u: "[k..<k_end] = k # [Suc k..<k_end]" using lt by (simp add: upt_conv_Cons)
  have s: "k * stride + stride = Suc k * stride" by simp
  show ?case
    unfolding u
    using ih ne kl b(1)
    by (subst chunk_while.simps) (simp add: s del: mult_Suc)
qed

lemma add_rows_zero [simp]: "add_rows dst lo hi (\<lambda>q. 0) = dst"
  by (intro nth_equalityI) (auto simp: nth_add_rows)

lemma fold_add_rows:
  "fold (\<lambda>q d. add_rows d lo hi (h q)) qs d = add_rows d lo hi (\<lambda>x. \<Sum>q\<leftarrow>qs. h q x)"
proof (induction qs arbitrary: d)
  case Nil
  then show ?case by simp
next
  case (Cons q qs)
  then show ?case by (simp add: add_rows_same_range)
qed

lemma fold_length_add_rows:
  "length (fold (\<lambda>q d. add_rows d lo hi (h q)) qs d) = length d"
  by (simp add: fold_add_rows)


subsection \<open>The traversal of chunk rows\<close>

lemma slot_in_values:
  assumes "valid_pattern P" "q < length (colnums (sparsity_pattern P))"
    "required_len P \<le> length values"
  shows "q * (chunk_size P * chunk_size P) + chunk_size P * chunk_size P \<le> length values"
proof -
  have "(q + 1) * (chunk_size P * chunk_size P)
        \<le> length (colnums (sparsity_pattern P)) * (chunk_size P * chunk_size P)"
    using assms(2) by (intro mult_le_mono1) simp
  then show ?thesis
    using assms(3) by (simp add: required_len_def n_nonzero_elements_def mult.assoc)
qed

lemma regular_col_bound:
  assumes "valid_pattern P" "q < length (colnums (sparsity_pattern P))"
    "colnums (sparsity_pattern P) ! q \<noteq> n_cols P div chunk_size P"
  shows "colnums (sparsity_pattern P) ! q * chunk_size P + chunk_size P \<le> n_cols P"
proof -
  let ?c = "colnums (sparsity_pattern P) ! q" and ?cs = "chunk_size P"
  have cs: "0 < ?cs" using valid_patternD(1)[OF assms(1)] .
  have lt: "?c < sp_cols (sparsity_pattern P)" using valid_patternD(8)[OF assms(1,2)] .
  have "?c < n_cols P div ?cs"
  proof (cases "n_cols P mod ?cs = 0")
    case True
    then show ?thesis using lt exact_chunk_cols[OF assms(1)] by simp
  next
    case False
    then show ?thesis using lt last_chunk_col[OF assms(1)] assms(3) by simp
  qed
  then have "(?c + 1) * ?cs \<le> n_cols P div ?cs * ?cs" by (intro mult_le_mono1) simp
  also have "\<dots> \<le> n_cols P" by simp
  finally show ?thesis by simp
qed

lemma chunk_cols_le:
  assumes "0 < chunk_size P"
  shows "chunk_cols P col \<le> chunk_size P"
  using assms by (simp add: chunk_cols_def)

lemma chunk_cols_bound:
  assumes "valid_pattern P" "q < length (colnums (sparsity_pattern P))"
  shows "colnums (sparsity_pattern P) ! q * chunk_size P
           + chunk_cols P (colnums (sparsity_pattern P) ! q) \<le> n_cols P"
proof (cases "colnums (sparsity_pattern P) ! q = n_cols P div chunk_size P")
  case True
  then show ?thesis by (simp add: chunk_cols_def)
next
  case False
  then show ?thesis using regular_col_bound[OF assms False] by (simp add: chunk_cols_def)
qed

lemma slot_lt_nnz:
  assumes "valid_pattern P" "cr < sp_rows (sparsity_pattern P)"
    "q < rowstart (sparsity_pattern P) ! (cr + 1)"
  shows "q < length (colnums (sparsity_pattern P))"
  using rowstart_le_nnz[OF assms(1), of "cr + 1"] assms(2,3) by simp

lemma row_of_position:
  fixes cs cr x nr :: nat
  assumes "cs * cr \<le> x" "x < cs * cr + nr" "nr \<le> cs"
  shows "x div cs = cr" "x mod cs = x - cs * cr"
proof -
  have cs: "cs \<noteq> 0" using assms by (cases cs) auto
  from assms(1) obtain r where x: "x = cs * cr + r" by (auto simp: le_iff_add)
  have r: "r < cs" using assms(2,3) x by simp
  have e: "cs * cr + r = r + cr * cs" by (simp add: mult.commute)
  have "(r + cr * cs) div cs = cr + r div cs" by (rule div_mult_self1) (rule cs)
  then show "x div cs = cr" unfolding x e using r by simp
  have "(r + cr * cs) mod cs = r mod cs" by (rule mod_mult_self1)
  then have "(cs * cr + r) mod cs = r" unfolding e using r by simp
  then show "x mod cs = x - cs * cr" unfolding x by simp
qed

text \<open>
  One chunk row: if the body adds to the rows \<open>[cs * cr, cs * cr + nr)\<close> of the
  destination, \<open>sgn\<close> times, the product of each chunk with its source fragment, the
  loop over the chunks of the row adds the row sums and leaves the cursors at the start
  of the next row.
\<close>

lemma row_while:
  fixes sgn :: "'a::comm_ring_1"
  assumes v: "valid_pattern P" and cr: "cr < sp_rows (sparsity_pattern P)"
    and nr: "nr \<le> chunk_size P"
    and body: "\<And>q d. rowstart (sparsity_pattern P) ! cr \<le> q
       \<Longrightarrow> q < rowstart (sparsity_pattern P) ! (cr + 1)
       \<Longrightarrow> length d = length (dst :: 'a list)
       \<Longrightarrow> body (q * (chunk_size P * chunk_size P)) (colnums (sparsity_pattern P) ! q) d
           = Inr (add_rows d (chunk_size P * cr) (chunk_size P * cr + nr)
               (\<lambda>x. sgn * chunk_row_sum (chunk_size P) values (q * (chunk_size P * chunk_size P))
                         src (colnums (sparsity_pattern P) ! q * chunk_size P)
                         (chunk_cols P (colnums (sparsity_pattern P) ! q))
                         (x - chunk_size P * cr)))"
  shows "chunk_while body (colnums (sparsity_pattern P)) (chunk_size P * chunk_size P)
           (rowstart (sparsity_pattern P) ! (cr + 1) * (chunk_size P * chunk_size P))
           (rowstart (sparsity_pattern P) ! cr * (chunk_size P * chunk_size P))
           (rowstart (sparsity_pattern P) ! cr) dst
         = Inr (rowstart (sparsity_pattern P) ! (cr + 1) * (chunk_size P * chunk_size P),
                rowstart (sparsity_pattern P) ! (cr + 1),
                add_rows dst (chunk_size P * cr) (chunk_size P * cr + nr)
                  (\<lambda>x. sgn * row_sum P values src x))"
proof -
  let ?sp = "sparsity_pattern P" and ?cs = "chunk_size P"
  let ?lo = "?cs * cr" and ?hi = "?cs * cr + nr"
  let ?h = "\<lambda>q x. sgn * chunk_row_sum ?cs values (q * (?cs * ?cs)) src (colnums ?sp ! q * ?cs)
                         (chunk_cols P (colnums ?sp ! q)) (x - ?cs * cr)"
  let ?g = "\<lambda>q d. add_rows d ?lo ?hi (?h q)"
  have cs: "0 < ?cs * ?cs" using valid_patternD(1)[OF v] by simp
  have w: "chunk_while body (colnums ?sp) (?cs * ?cs)
             (rowstart ?sp ! (cr + 1) * (?cs * ?cs)) (rowstart ?sp ! cr * (?cs * ?cs))
             (rowstart ?sp ! cr) dst
           = Inr (rowstart ?sp ! (cr + 1) * (?cs * ?cs), rowstart ?sp ! (cr + 1),
                  fold ?g [rowstart ?sp ! cr..<rowstart ?sp ! (cr + 1)] dst)
           \<and> length (fold ?g [rowstart ?sp ! cr..<rowstart ?sp ! (cr + 1)] dst) = length dst"
  proof (rule chunk_while_fold[where I = "\<lambda>d. length d = length dst"])
    show "0 < ?cs * ?cs" by (rule cs)
    show "rowstart ?sp ! cr \<le> rowstart ?sp ! (cr + 1)" using valid_patternD(7)[OF v cr] .
    show "rowstart ?sp ! (cr + 1) \<le> length (colnums ?sp)"
      using rowstart_le_nnz[OF v, of "cr + 1"] cr by simp
    show "length dst = length dst" by simp
    fix q and d :: "'a list"
    assume "rowstart ?sp ! cr \<le> q" "q < rowstart ?sp ! (cr + 1)" "length d = length dst"
    then show "body (q * (?cs * ?cs)) (colnums ?sp ! q) d = Inr (?g q d)
               \<and> length (?g q d) = length dst"
      using body[of q d] by simp
  qed
  have "fold ?g [rowstart ?sp ! cr..<rowstart ?sp ! (cr + 1)] dst
        = add_rows dst ?lo ?hi
            (\<lambda>x. \<Sum>q\<leftarrow>[rowstart ?sp ! cr..<rowstart ?sp ! (cr + 1)]. ?h q x)"
    by (rule fold_add_rows)
  also have "\<dots> = add_rows dst ?lo ?hi (\<lambda>x. sgn * row_sum P values src x)"
  proof (rule add_rows_cong)
    fix x assume x: "?lo \<le> x" "x < ?hi"
    note rp = row_of_position[OF x nr]
    show "(\<Sum>q\<leftarrow>[rowstart ?sp ! cr..<rowstart ?sp ! (cr + 1)]. ?h q x)
          = sgn * row_sum P values src x"
      by (simp add: row_sum_def Let_def rp sum_list_const_mult)
  qed
  finally show ?thesis using w by simp
qed

lemma vmult_body_regular:
  assumes v: "valid_pattern P" and q: "q < length (colnums (sparsity_pattern P))"
    and lv: "required_len P \<le> length (values :: 'a::comm_ring_1 list)"
    and ls: "length src = n_cols P"
    and ld: "dp + chunk_size P \<le> length d"
  shows "(if colnums (sparsity_pattern P) ! q \<noteq> n_cols P div chunk_size P
          then chunk_vmult_add (chunk_size P) values (q * (chunk_size P * chunk_size P)) src
                 (colnums (sparsity_pattern P) ! q * chunk_size P) d dp
          else padded_chunk_add (chunk_size P) (chunk_size P) (n_cols P mod chunk_size P)
                 values (q * (chunk_size P * chunk_size P)) src
                 (colnums (sparsity_pattern P) ! q) d dp)
         = Inr (add_rows d dp (dp + chunk_size P)
             (\<lambda>x. 1 * chunk_row_sum (chunk_size P) values (q * (chunk_size P * chunk_size P))
                       src (colnums (sparsity_pattern P) ! q * chunk_size P)
                       (chunk_cols P (colnums (sparsity_pattern P) ! q)) (x - dp)))"
proof (cases "colnums (sparsity_pattern P) ! q \<noteq> n_cols P div chunk_size P")
  case True
  have "colnums (sparsity_pattern P) ! q * chunk_size P + chunk_size P \<le> length src"
    using regular_col_bound[OF v q] True ls by simp
  from chunk_vmult_add_rows[OF slot_in_values[OF v q lv] this ld] True
  show ?thesis by (simp add: chunk_cols_def)
next
  case False
  have "colnums (sparsity_pattern P) ! q * chunk_size P + n_cols P mod chunk_size P \<le> length src"
    using False ls by simp
  from padded_chunk_add_rows[OF slot_in_values[OF v q lv] this ld order_refl]
    valid_patternD(1)[OF v] False
  show ?thesis by (simp add: chunk_cols_def)
qed

lemma vmult_body_last:
  assumes v: "valid_pattern P" and q: "q < length (colnums (sparsity_pattern P))"
    and lv: "required_len P \<le> length (values :: 'a::comm_ring_1 list)"
    and ls: "length src = n_cols P"
    and nr: "nr \<le> chunk_size P"
    and ld: "dp + nr \<le> length d"
  shows "(if colnums (sparsity_pattern P) ! q \<noteq> n_cols P div chunk_size P
          then padded_chunk_add (chunk_size P) nr (chunk_size P)
                 values (q * (chunk_size P * chunk_size P)) src
                 (colnums (sparsity_pattern P) ! q) d dp
          else padded_chunk_add (chunk_size P) nr (n_cols P mod chunk_size P)
                 values (q * (chunk_size P * chunk_size P)) src
                 (colnums (sparsity_pattern P) ! q) d dp)
         = Inr (add_rows d dp (dp + nr)
             (\<lambda>x. 1 * chunk_row_sum (chunk_size P) values (q * (chunk_size P * chunk_size P))
                       src (colnums (sparsity_pattern P) ! q * chunk_size P)
                       (chunk_cols P (colnums (sparsity_pattern P) ! q)) (x - dp)))"
proof (cases "colnums (sparsity_pattern P) ! q \<noteq> n_cols P div chunk_size P")
  case True
  have "colnums (sparsity_pattern P) ! q * chunk_size P + chunk_size P \<le> length src"
    using regular_col_bound[OF v q] True ls by simp
  from padded_chunk_add_rows[OF slot_in_values[OF v q lv] this ld nr order_refl] True
  show ?thesis by (simp add: chunk_cols_def)
next
  case False
  have "colnums (sparsity_pattern P) ! q * chunk_size P + n_cols P mod chunk_size P \<le> length src"
    using False ls by simp
  from padded_chunk_add_rows[OF slot_in_values[OF v q lv] this ld nr]
    valid_patternD(1)[OF v] False
  show ?thesis by (simp add: chunk_cols_def)
qed

lemma full_rows_le_sp_rows:
  assumes "valid_pattern P" "e * chunk_size P \<le> n_rows P"
  shows "e \<le> sp_rows (sparsity_pattern P)"
proof -
  let ?cs = "chunk_size P"
  have cs: "0 < ?cs" using valid_patternD(1)[OF assms(1)] .
  have "e \<le> n_rows P div ?cs" using assms(2) cs by (simp add: less_eq_div_iff_mult_less_eq)
  also have "\<dots> \<le> (n_rows P + ?cs - 1) div ?cs" using cs by (intro div_le_mono) linarith
  finally show ?thesis using valid_patternD(2)[OF assms(1)] by simp
qed

lemma vmult_regular_rows:
  assumes v: "valid_pattern P" and be: "b \<le> e" and e: "e * chunk_size P \<le> n_rows P"
    and lv: "required_len P \<le> length (values :: 'a::comm_ring_1 list)"
    and ls: "length src = n_cols P"
    and ld: "length dst = n_rows P"
  shows "for_loop [b..<e]
           (\<lambda>chunk_row (val_ptr, colnum_ptr, dst_ptr, dst).
              bind_err (rd (rowstart (sparsity_pattern P)) (chunk_row + 1)) (\<lambda>next_row.
              bind_err
                (chunk_while
                   (\<lambda>val_ptr col dst.
                      if col \<noteq> n_cols P div chunk_size P
                      then chunk_vmult_add (chunk_size P) values val_ptr src
                             (col * chunk_size P) dst dst_ptr
                      else padded_chunk_add (chunk_size P) (chunk_size P)
                             (n_cols P mod chunk_size P) values val_ptr src col dst dst_ptr)
                   (colnums (sparsity_pattern P)) (chunk_size P * chunk_size P)
                   (next_row * chunk_size P * chunk_size P) val_ptr colnum_ptr dst)
                (\<lambda>(val_ptr, colnum_ptr, dst).
                   Inr (val_ptr, colnum_ptr, dst_ptr + chunk_size P, dst))))
           (rowstart (sparsity_pattern P) ! b * chunk_size P * chunk_size P,
            rowstart (sparsity_pattern P) ! b, chunk_size P * b, dst)
         = Inr (rowstart (sparsity_pattern P) ! e * chunk_size P * chunk_size P,
                rowstart (sparsity_pattern P) ! e, chunk_size P * e,
                add_rows dst (chunk_size P * b) (chunk_size P * e) (row_sum P values src))"
  using be e
proof (induction e rule: dec_induct)
  case base
  then show ?case by simp
next
  case (step e')
  let ?sp = "sparsity_pattern P" and ?cs = "chunk_size P"
  let ?f = "row_sum P values src"
  let ?D = "add_rows dst (?cs * b) (?cs * e') ?f"
  have e': "e' * ?cs \<le> n_rows P" "?cs * e' + ?cs \<le> n_rows P"
    using step.prems by (simp_all add: mult.commute)
  have cr: "e' < sp_rows ?sp" using full_rows_le_sp_rows[OF v step.prems] by simp
  have rdn: "rd (rowstart ?sp) (e' + 1) = Inr (rowstart ?sp ! (e' + 1))"
    using cr valid_patternD(4)[OF v] by simp
  have row: "chunk_while
                   (\<lambda>val_ptr col dst.
                      if col \<noteq> n_cols P div ?cs
                      then chunk_vmult_add ?cs values val_ptr src (col * ?cs) dst (?cs * e')
                      else padded_chunk_add ?cs ?cs (n_cols P mod ?cs) values val_ptr src col
                             dst (?cs * e'))
                   (colnums ?sp) (?cs * ?cs)
                   (rowstart ?sp ! (e' + 1) * (?cs * ?cs)) (rowstart ?sp ! e' * (?cs * ?cs))
                   (rowstart ?sp ! e') ?D
         = Inr (rowstart ?sp ! (e' + 1) * (?cs * ?cs), rowstart ?sp ! (e' + 1),
                add_rows ?D (?cs * e') (?cs * e' + ?cs) (\<lambda>x. 1 * ?f x))"
  proof (rule row_while[OF v cr order_refl])
    fix q and d :: "'a list"
    assume q: "rowstart ?sp ! e' \<le> q" "q < rowstart ?sp ! (e' + 1)" and d: "length d = length ?D"
    have ql: "q < length (colnums ?sp)" using slot_lt_nnz[OF v cr q(2)] .
    have dl: "?cs * e' + ?cs \<le> length d" using d ld e'(2) by simp
    show "(if colnums ?sp ! q \<noteq> n_cols P div ?cs
           then chunk_vmult_add ?cs values (q * (?cs * ?cs)) src (colnums ?sp ! q * ?cs) d (?cs * e')
           else padded_chunk_add ?cs ?cs (n_cols P mod ?cs) values (q * (?cs * ?cs)) src
                  (colnums ?sp ! q) d (?cs * e'))
          = Inr (add_rows d (?cs * e') (?cs * e' + ?cs)
               (\<lambda>x. 1 * chunk_row_sum ?cs values (q * (?cs * ?cs)) src (colnums ?sp ! q * ?cs)
                          (chunk_cols P (colnums ?sp ! q)) (x - ?cs * e')))"
      by (rule vmult_body_regular[OF v ql lv ls dl])
  qed
  have merge: "add_rows ?D (?cs * e') (?cs * e' + ?cs) ?f = add_rows dst (?cs * b) (?cs * Suc e') ?f"
    using step.hyps(1) by (simp add: add_rows_adjacent add.commute)
  have ih: "for_loop [b..<e']
           (\<lambda>chunk_row (val_ptr, colnum_ptr, dst_ptr, dst).
              bind_err (rd (rowstart ?sp) (chunk_row + 1)) (\<lambda>next_row.
              bind_err
                (chunk_while
                   (\<lambda>val_ptr col dst.
                      if col \<noteq> n_cols P div ?cs
                      then chunk_vmult_add ?cs values val_ptr src (col * ?cs) dst dst_ptr
                      else padded_chunk_add ?cs ?cs (n_cols P mod ?cs) values val_ptr src col
                             dst dst_ptr)
                   (colnums ?sp) (?cs * ?cs) (next_row * ?cs * ?cs) val_ptr colnum_ptr dst)
                (\<lambda>(val_ptr, colnum_ptr, dst). Inr (val_ptr, colnum_ptr, dst_ptr + ?cs, dst))))
           (rowstart ?sp ! b * ?cs * ?cs, rowstart ?sp ! b, ?cs * b, dst)
         = Inr (rowstart ?sp ! e' * ?cs * ?cs, rowstart ?sp ! e', ?cs * e', ?D)"
    using step.IH e'(1) by simp
  show ?case
    using step.hyps(1) ih rdn row merge
    by (simp add: for_loop_snoc mult.assoc)
qed

lemma add_rows_no_range:
  assumes "hi \<le> lo"
  shows "add_rows dst lo hi f = dst"
  using assms by (intro nth_equalityI) (auto simp: nth_add_rows)

lemma chunk_while_done:
  "chunk_while body colnums_arr stride v v c d = Inr (v, c, d)"
  by (simp add: chunk_while.simps)

lemma le_div_times:
  fixes e m c :: nat
  assumes "e \<le> m div c"
  shows "e * c \<le> m"
proof -
  have "e * c \<le> m div c * c" using assms by (rule mult_le_mono1)
  also have "\<dots> \<le> m" by simp
  finally show ?thesis .
qed

lemma vmult_add_walk_result:
  assumes v: "valid_pattern P" and be: "b \<le> e" and e: "e \<le> sp_rows (sparsity_pattern P)"
    and lv: "required_len P \<le> length (values :: 'a::comm_ring_1 list)"
    and ls: "length src = n_cols P"
    and ld: "length dst = n_rows P"
  shows "vmult_add_walk P b e values (rowstart (sparsity_pattern P))
           (colnums (sparsity_pattern P)) src dst
         = Inr (rowstart (sparsity_pattern P) ! e * chunk_size P * chunk_size P,
                rowstart (sparsity_pattern P) ! e,
                add_rows dst (chunk_size P * b) (min (chunk_size P * e) (n_rows P))
                  (row_sum P values src))"
proof -
  let ?sp = "sparsity_pattern P" and ?cs = "chunk_size P" and ?m = "n_rows P"
  let ?f = "row_sum P values src"
  let ?L = "?m div ?cs"
  have cs: "0 < ?cs" using valid_patternD(1)[OF v] .
  have rdb: "rd (rowstart ?sp) b = Inr (rowstart ?sp ! b)"
    using be e valid_patternD(4)[OF v] by simp
  note rows = vmult_regular_rows[OF v _ _ lv ls ld]
  show ?thesis
  proof (cases "?m mod ?cs > 0 \<and> e = ?L + 1")
    case False
    have full: "e * ?cs \<le> ?m"
    proof (cases "?m mod ?cs = 0")
      case True
      then have "e \<le> ?L" using e exact_chunk_rows[OF v] by simp
      then show ?thesis by (rule le_div_times)
    next
      case False
      with \<open>\<not> (?m mod ?cs > 0 \<and> e = ?L + 1)\<close> have "e \<le> ?L"
        using e last_chunk_row[OF v] by simp
      then show ?thesis by (rule le_div_times)
    qed
    have lr: "(if ?m mod ?cs > 0 then min ?L e else e) = e"
      using full cs by (simp add: less_eq_div_iff_mult_less_eq)
    have mn: "min (?cs * e) ?m = ?cs * e" using full by (simp add: mult.commute)
    show ?thesis
      using False cs rdb rows[OF be full]
      by (auto simp: vmult_add_walk_def Let_def lr mn)
  next
    case True
    then have pad: "?m mod ?cs > 0" and eL: "e = ?L + 1" by simp_all
    have spr: "sp_rows ?sp = ?L + 1" using last_chunk_row[OF v] pad by simp
    have lr: "(if ?m mod ?cs > 0 then min ?L e else e) = ?L" using pad eL by simp
    have mL: "?cs * ?L + ?m mod ?cs = ?m" by simp
    have mlt: "?m < ?cs * ?L + ?cs"
    proof -
      have "?m mod ?cs < ?cs" using cs by simp
      then show ?thesis using mL by linarith
    qed
    have mn: "min (?cs * e) ?m = ?m" using mlt eL by simp
    have rdn: "rd (rowstart ?sp) (?L + 1) = Inr (rowstart ?sp ! (?L + 1))"
      using spr valid_patternD(4)[OF v] by simp
    show ?thesis
    proof (cases "b \<le> ?L")
      case False
      then have bb: "b = ?L + 1" using be eL by simp
      have "?m < ?cs * b" using mlt bb by simp
      then have nr: "add_rows dst (?cs * b) (min (?cs * e) ?m) ?f = dst"
        by (intro add_rows_no_range) simp
      have emp: "[b..<?L] = []" using bb by simp
      show ?thesis
        using pad cs rdb rdn nr emp
        by (simp add: vmult_add_walk_def Let_def eL bb chunk_while_done)
    next
      case bL: True
      let ?D = "add_rows dst (?cs * b) (?cs * ?L) ?f"
      have full: "?L * ?cs \<le> ?m" by simp
      have cr: "?L < sp_rows ?sp" using spr by simp
      have nrle: "?m mod ?cs \<le> ?cs" using cs by simp
      have row: "chunk_while
                   (\<lambda>val_ptr col dst.
                      if col \<noteq> n_cols P div ?cs
                      then padded_chunk_add ?cs (?m mod ?cs) ?cs values val_ptr src col dst
                             (?cs * ?L)
                      else padded_chunk_add ?cs (?m mod ?cs) (n_cols P mod ?cs) values val_ptr
                             src col dst (?cs * ?L))
                   (colnums ?sp) (?cs * ?cs)
                   (rowstart ?sp ! (?L + 1) * (?cs * ?cs)) (rowstart ?sp ! ?L * (?cs * ?cs))
                   (rowstart ?sp ! ?L) ?D
         = Inr (rowstart ?sp ! (?L + 1) * (?cs * ?cs), rowstart ?sp ! (?L + 1),
                add_rows ?D (?cs * ?L) (?cs * ?L + ?m mod ?cs) (\<lambda>x. 1 * ?f x))"
      proof (rule row_while[OF v cr nrle])
        fix q and d :: "'a list"
        assume q: "rowstart ?sp ! ?L \<le> q" "q < rowstart ?sp ! (?L + 1)"
          and d: "length d = length ?D"
        have ql: "q < length (colnums ?sp)" using slot_lt_nnz[OF v cr q(2)] .
        have dl: "?cs * ?L + ?m mod ?cs \<le> length d" using d ld by simp
        show "(if colnums ?sp ! q \<noteq> n_cols P div ?cs
               then padded_chunk_add ?cs (?m mod ?cs) ?cs values (q * (?cs * ?cs)) src
                      (colnums ?sp ! q) d (?cs * ?L)
               else padded_chunk_add ?cs (?m mod ?cs) (n_cols P mod ?cs) values
                      (q * (?cs * ?cs)) src (colnums ?sp ! q) d (?cs * ?L))
              = Inr (add_rows d (?cs * ?L) (?cs * ?L + ?m mod ?cs)
                   (\<lambda>x. 1 * chunk_row_sum ?cs values (q * (?cs * ?cs)) src
                              (colnums ?sp ! q * ?cs) (chunk_cols P (colnums ?sp ! q))
                              (x - ?cs * ?L)))"
          by (rule vmult_body_last[OF v ql lv ls nrle dl])
      qed
      have merge: "add_rows ?D (?cs * ?L) (?cs * ?L + ?m mod ?cs) ?f
                   = add_rows dst (?cs * b) ?m ?f"
        using bL by (simp only: mL) (simp add: add_rows_adjacent)
      show ?thesis
        using pad cs rdb rdn rows[OF bL full] row merge mn
        by (simp add: vmult_add_walk_def Let_def eL mult.assoc)
    qed
  qed
qed

lemma chunk_row_start_le:
  assumes "valid_pattern P" "i < sp_rows (sparsity_pattern P)"
  shows "chunk_size P * i \<le> n_rows P"
proof -
  have "i \<le> n_rows P div chunk_size P"
  proof (cases "n_rows P mod chunk_size P = 0")
    case True
    then show ?thesis using assms(2) exact_chunk_rows[OF assms(1)] by simp
  next
    case False
    then show ?thesis using assms(2) last_chunk_row[OF assms(1)] by simp
  qed
  then have "i * chunk_size P \<le> n_rows P" by (rule le_div_times)
  then show ?thesis by (simp add: mult.commute)
qed

lemma chunk_rows_cover_all:
  assumes "valid_pattern P"
  shows "n_rows P \<le> chunk_size P * sp_rows (sparsity_pattern P)"
proof (cases "n_rows P mod chunk_size P = 0")
  case True
  have "chunk_size P * (n_rows P div chunk_size P) + n_rows P mod chunk_size P = n_rows P"
    by simp
  with True have "n_rows P \<le> chunk_size P * (n_rows P div chunk_size P)" by linarith
  then show ?thesis using exact_chunk_rows[OF assms True] by simp
next
  case False
  have "n_rows P mod chunk_size P < chunk_size P"
    using valid_patternD(1)[OF assms] by simp
  moreover have "chunk_size P * (n_rows P div chunk_size P) + n_rows P mod chunk_size P = n_rows P"
    by simp
  ultimately have "n_rows P \<le> chunk_size P * (n_rows P div chunk_size P) + chunk_size P"
    by linarith
  then show ?thesis using last_chunk_row[OF assms False] by simp
qed

lemma vmult_add_on_subrange_result:
  assumes v: "valid_pattern P" and be: "b \<le> e" and e: "e \<le> sp_rows (sparsity_pattern P)"
    and lv: "required_len P \<le> length (values :: 'a::comm_ring_1 list)"
    and ls: "length src = n_cols P"
    and ld: "length dst = n_rows P"
  shows "vmult_add_on_subrange P b e values (rowstart (sparsity_pattern P))
           (colnums (sparsity_pattern P)) src dst
         = Inr (add_rows dst (chunk_size P * b) (min (chunk_size P * e) (n_rows P))
                  (row_sum P values src))"
proof -
  have "rd (rowstart (sparsity_pattern P)) e = Inr (rowstart (sparsity_pattern P) ! e)"
    using e valid_patternD(4)[OF v] by simp
  then show ?thesis
    using vmult_add_walk_result[OF assms]
    by (simp add: vmult_add_on_subrange_def)
qed

lemma apply_vmult_subranges:
  assumes v: "valid_pattern P" and be: "b \<le> e" and e: "e \<le> sp_rows (sparsity_pattern P)"
    and lv: "required_len P \<le> length (values :: 'a::comm_ring_1 list)"
    and ls: "length src = n_cols P"
    and ld: "length dst = n_rows P"
  shows "apply_to_subranges sched b e
           (\<lambda>begin_row end_row d.
              vmult_add_on_subrange P begin_row end_row values
                (rowstart (sparsity_pattern P)) (colnums (sparsity_pattern P)) src d)
           g dst
         = Inr (add_rows dst (chunk_size P * b) (min (chunk_size P * e) (n_rows P))
                  (row_sum P values src))"
  using be ld
proof (induction sched arbitrary: b dst)
  case Nil
  then show ?case using vmult_add_on_subrange_result[OF v _ e lv ls] by simp
next
  case (Cons k ks)
  let ?cs = "chunk_size P" and ?f = "row_sum P values src"
  show ?case
  proof (cases "0 < k \<and> b + k < e")
    case False
    then show ?thesis
      using vmult_add_on_subrange_result[OF v Cons.prems(1) e lv ls Cons.prems(2)] by auto
  next
    case True
    have bk: "b + k < sp_rows (sparsity_pattern P)" using True e by simp
    have le: "?cs * (b + k) \<le> n_rows P" using chunk_row_start_le[OF v bk] .
    let ?D = "add_rows dst (?cs * b) (?cs * (b + k)) ?f"
    have first: "vmult_add_on_subrange P b (b + k) values (rowstart (sparsity_pattern P))
                   (colnums (sparsity_pattern P)) src dst = Inr ?D"
      using vmult_add_on_subrange_result[OF v _ _ lv ls Cons.prems(2), of b "b + k"] bk le
      by (simp add: min_absorb1)
    have rest: "apply_to_subranges ks (b + k) e
           (\<lambda>begin_row end_row d.
              vmult_add_on_subrange P begin_row end_row values
                (rowstart (sparsity_pattern P)) (colnums (sparsity_pattern P)) src d)
           g ?D
         = Inr (add_rows ?D (?cs * (b + k)) (min (?cs * e) (n_rows P)) ?f)"
      using True Cons.prems(2) by (intro Cons.IH) simp_all
    have "?cs * (b + k) \<le> ?cs * e" using True by simp
    then have "add_rows ?D (?cs * (b + k)) (min (?cs * e) (n_rows P)) ?f
          = add_rows dst (?cs * b) (min (?cs * e) (n_rows P)) ?f"
      using le by (intro add_rows_adjacent) simp_all
    then show ?thesis using True first rest by simp
  qed
qed

lemma add_rows_all:
  "add_rows (replicate n 0) 0 n f = map f [0..<n]"
  by (intro nth_equalityI) (simp_all add: nth_add_rows)

lemma vmult_add_result:
  assumes "cols M = Some a" "val M = Some values" "patterns env a = Some P"
    and v: "valid_pattern P"
    and lv: "required_len P \<le> length (values :: 'a::comm_ring_1 list)"
    and ld: "length (vecs dst) = n_rows P"
    and ls: "length (vecs src) = n_cols P"
    and ne: "src \<noteq> dst"
  shows "vmult_add env M vecs dst src
         = Inr (vecs(dst := add_rows (vecs dst) 0 (n_rows P) (row_sum P values (vecs src))))"
proof -
  have "min (chunk_size P * sp_rows (sparsity_pattern P)) (n_rows P) = n_rows P"
    using chunk_rows_cover_all[OF v] by simp
  then show ?thesis
    using assms(1-3) ld ls ne valid_patternD(1)[OF v]
      apply_vmult_subranges[OF v _ order_refl lv ls ld, of 0 "schedule env"]
    by (simp add: vmult_add_def)
qed

lemma vmult_result:
  assumes "cols M = Some a" "val M = Some values" "patterns env a = Some P"
    and v: "valid_pattern P"
    and lv: "required_len P \<le> length (values :: 'a::comm_ring_1 list)"
    and ld: "length (vecs dst) = n_rows P"
    and ls: "length (vecs src) = n_cols P"
    and ne: "src \<noteq> dst"
  shows "vmult env M vecs dst src
         = Inr (vecs(dst := map (row_sum P values (vecs src)) [0..<n_rows P]))"
proof -
  let ?vecs = "vecs(dst := replicate (length (vecs dst)) 0)"
  have "vmult_add env M ?vecs dst src
        = Inr (?vecs(dst := add_rows (?vecs dst) 0 (n_rows P) (row_sum P values (?vecs src))))"
    using ld ls ne by (intro vmult_add_result[OF assms(1-3) v lv]) simp_all
  then show ?thesis
    using assms(1-3) ld ls ne by (simp add: vmult_def add_rows_all)
qed

text \<open>
  C9: for a valid pattern and a range of chunk rows \<open>[begin_row, end_row)\<close> within the
  pattern, a value array that holds the pattern's chunks and vectors of the logical
  sizes, the walk of \<open>vmult_add_on_subrange\<close> ends with the value cursor at
  \<open>rowstart[end_row] * chunk_size\<^sup>2\<close> and the column cursor at \<open>rowstart[end_row]\<close>,
  and the function returns: neither of its two assertions fires.
\<close>

theorem traversal_cursors_exact:
  assumes "valid_pattern P" "begin_row \<le> end_row" "end_row \<le> sp_rows (sparsity_pattern P)"
    "required_len P \<le> length (values :: 'a::comm_ring_1 list)"
    "length src = n_cols P" "length dst = n_rows P"
  shows "\<exists>dst'. vmult_add_walk P begin_row end_row values (rowstart (sparsity_pattern P))
                   (colnums (sparsity_pattern P)) src dst
                 = Inr (rowstart (sparsity_pattern P) ! end_row * chunk_size P * chunk_size P,
                        rowstart (sparsity_pattern P) ! end_row, dst')
               \<and> vmult_add_on_subrange P begin_row end_row values
                   (rowstart (sparsity_pattern P)) (colnums (sparsity_pattern P)) src dst
                 = Inr dst'"
  using vmult_add_walk_result[OF assms] vmult_add_on_subrange_result[OF assms] by simp


subsection \<open>The traversal computes the logical product\<close>

lemma stored_slot_unique:
  assumes v: "valid_pattern P" and ci: "ci < sp_rows (sparsity_pattern P)"
    and q: "rowstart (sparsity_pattern P) ! ci \<le> q" "q < rowstart (sparsity_pattern P) ! (ci + 1)"
  shows "stored_slot P ci (colnums (sparsity_pattern P) ! q) = Some q"
proof -
  let ?sp = "sparsity_pattern P"
  let ?lo = "rowstart ?sp ! ci" and ?hi = "rowstart ?sp ! (ci + 1)"
  let ?xs = "[?lo..<?hi]"
  have d: "distinct (map (\<lambda>k. colnums ?sp ! k) ?xs)" using valid_patternD(9)[OF v ci] .
  have i: "q - ?lo < length ?xs" "?xs ! (q - ?lo) = q" using q by simp_all
  have "\<forall>j<q - ?lo. colnums ?sp ! (?xs ! j) \<noteq> colnums ?sp ! q"
  proof (intro allI impI)
    fix j assume j: "j < q - ?lo"
    then have jl: "j < length (map (\<lambda>k. colnums ?sp ! k) ?xs)" using i(1) by simp
    have il: "q - ?lo < length (map (\<lambda>k. colnums ?sp ! k) ?xs)" using i(1) by simp
    have "map (\<lambda>k. colnums ?sp ! k) ?xs ! j \<noteq> map (\<lambda>k. colnums ?sp ! k) ?xs ! (q - ?lo)"
      using d jl il j by (simp only: distinct_conv_nth) (metis nat_neq_iff)
    then show "colnums ?sp ! (?xs ! j) \<noteq> colnums ?sp ! q"
      using j i by simp
  qed
  then have "\<exists>i<length ?xs. colnums ?sp ! (?xs ! i) = colnums ?sp ! q \<and> q = ?xs ! i
               \<and> (\<forall>j<i. \<not> colnums ?sp ! (?xs ! j) = colnums ?sp ! q)"
    using i by (intro exI[of _ "q - ?lo"]) simp
  then show ?thesis
    unfolding stored_slot_def Let_def find_Some_iff by simp
qed

lemma div_mod_in_chunk:
  fixes col c cs :: nat
  assumes "c < cs"
  shows "(col * cs + c) div cs = col" "(col * cs + c) mod cs = c"
proof -
  have cs: "cs \<noteq> 0" using assms by auto
  have "(c + col * cs) div cs = col + c div cs" by (rule div_mult_self1) (rule cs)
  then show "(col * cs + c) div cs = col" using assms by (simp add: add.commute)
  have "(c + col * cs) mod cs = c mod cs" by (rule mod_mult_self1)
  then show "(col * cs + c) mod cs = c" using assms by (simp add: add.commute)
qed

lemma mod_less_in_last_chunk:
  fixes j n cs :: nat
  assumes "j < n" "j div cs = n div cs"
  shows "j mod cs < n mod cs"
proof -
  have "j = j div cs * cs + j mod cs" "n = n div cs * cs + n mod cs" by simp_all
  then show ?thesis using assms by (metis nat_add_left_cancel_less)
qed

lemma row_sum_logical:
  assumes v: "valid_pattern P" and i: "i < n_rows P"
  shows "row_sum P values src i = (\<Sum>j\<leftarrow>[0..<n_cols P]. el P values i j * src ! j)"
proof -
  let ?sp = "sparsity_pattern P" and ?cs = "chunk_size P" and ?n = "n_cols P"
  let ?ci = "i div ?cs" and ?r = "i mod ?cs"
  let ?lo = "rowstart ?sp ! ?ci" and ?hi = "rowstart ?sp ! (?ci + 1)"
  define F where "F = (\<lambda>(q, c). values ! (q * (?cs * ?cs) + ?r * ?cs + c)
                                    * src ! (colnums ?sp ! q * ?cs + c))"
  define G where "G = (\<lambda>j. el P values i j * src ! j)"
  define S where "S = (SIGMA q:{?lo..<?hi}. {..<chunk_cols P (colnums ?sp ! q)})"
  define J where "J = {j \<in> {0..<?n}. stored_slot P ?ci (j div ?cs) \<noteq> None}"
  have cs: "0 < ?cs" using valid_patternD(1)[OF v] .
  have ci: "?ci < sp_rows ?sp" using chunk_rows_cover[OF v i] .
  have S_D: "?lo \<le> q \<and> q < ?hi \<and> c < chunk_cols P (colnums ?sp ! q) \<and> c < ?cs
             \<and> q < length (colnums ?sp)
             \<and> colnums ?sp ! q * ?cs + c < ?n
             \<and> stored_slot P ?ci (colnums ?sp ! q) = Some q"
    if "(q, c) \<in> S" for q c
  proof -
    from that have q: "?lo \<le> q" "q < ?hi" and c: "c < chunk_cols P (colnums ?sp ! q)"
      by (auto simp: S_def)
    have ql: "q < length (colnums ?sp)" using slot_lt_nnz[OF v ci q(2)] .
    have "c < ?cs" using c chunk_cols_le[OF cs, of "colnums ?sp ! q"] by simp
    moreover have "colnums ?sp ! q * ?cs + c < ?n" using chunk_cols_bound[OF v ql] c by simp
    ultimately show ?thesis using q c ql stored_slot_unique[OF v ci q] by simp
  qed
  have J_D: "j < ?n \<and> (\<exists>q. stored_slot P ?ci (j div ?cs) = Some q \<and> ?lo \<le> q \<and> q < ?hi
               \<and> colnums ?sp ! q = j div ?cs \<and> j mod ?cs < chunk_cols P (colnums ?sp ! q))"
    if "j \<in> J" for j
  proof -
    from that have j: "j < ?n" and "stored_slot P ?ci (j div ?cs) \<noteq> None"
      by (auto simp: J_def)
    then obtain q where q: "stored_slot P ?ci (j div ?cs) = Some q" by auto
    note qq = stored_slotD[OF q]
    have "j mod ?cs < chunk_cols P (j div ?cs)"
      using mod_less_in_last_chunk[OF j] cs by (simp add: chunk_cols_def)
    then show ?thesis using j q qq by simp
  qed
  have G_el: "G (colnums ?sp ! q * ?cs + c) = F (q, c)" if "(q, c) \<in> S" for q c
  proof -
    note d = S_D[OF that]
    have dm: "(colnums ?sp ! q * ?cs + c) div ?cs = colnums ?sp ! q"
      "(colnums ?sp ! q * ?cs + c) mod ?cs = c"
      using div_mod_in_chunk[of c ?cs "colnums ?sp ! q"] d by simp_all
    show ?thesis
      using d by (simp add: G_def F_def el_def compute_location_def dm mult.assoc)
  qed
  have lhs: "row_sum P values src i = sum F S"
  proof -
    have "row_sum P values src i
          = (\<Sum>q\<in>{?lo..<?hi}. \<Sum>c<chunk_cols P (colnums ?sp ! q). F (q, c))"
      by (simp add: row_sum_def Let_def chunk_row_sum_def F_def
            interv_sum_list_conv_sum_set_nat)
    also have "\<dots> = sum F S"
      unfolding S_def by (subst sum.Sigma) auto
    finally show ?thesis .
  qed
  have "(\<Sum>j\<leftarrow>[0..<?n]. el P values i j * src ! j) = sum G {0..<?n}"
    by (simp add: G_def interv_sum_list_conv_sum_set_nat)
  also have "\<dots> = sum G J"
  proof (rule sum.mono_neutral_right)
    show "finite {0..<?n}" by simp
    show "J \<subseteq> {0..<?n}" by (auto simp: J_def)
    show "\<forall>j\<in>{0..<?n} - J. G j = 0"
      by (auto simp: J_def G_def el_def compute_location_def)
  qed
  also have "\<dots> = sum F S"
  proof (rule sum.reindex_bij_witness[where
        i = "\<lambda>(q, c). colnums ?sp ! q * ?cs + c" and
        j = "\<lambda>j. (the (stored_slot P ?ci (j div ?cs)), j mod ?cs)"])
    fix j assume j: "j \<in> J"
    from J_D[OF j] obtain q where q: "stored_slot P ?ci (j div ?cs) = Some q"
      "?lo \<le> q" "q < ?hi" "colnums ?sp ! q = j div ?cs"
      "j mod ?cs < chunk_cols P (colnums ?sp ! q)" by blast
    show "(case (the (stored_slot P ?ci (j div ?cs)), j mod ?cs) of
             (q, c) \<Rightarrow> colnums ?sp ! q * ?cs + c) = j"
      using q by simp
    show "(the (stored_slot P ?ci (j div ?cs)), j mod ?cs) \<in> S"
      using q by (simp add: S_def)
    show "F (the (stored_slot P ?ci (j div ?cs)), j mod ?cs) = G j"
    proof -
      have "(q, j mod ?cs) \<in> S" using q by (simp add: S_def)
      from G_el[OF this] q show ?thesis by simp
    qed
  next
    fix a assume a: "a \<in> S"
    obtain q c where qc: "a = (q, c)" by (cases a)
    note d = S_D[OF a[unfolded qc]]
    have dm: "(colnums ?sp ! q * ?cs + c) div ?cs = colnums ?sp ! q"
      "(colnums ?sp ! q * ?cs + c) mod ?cs = c"
      using div_mod_in_chunk[of c ?cs "colnums ?sp ! q"] d by simp_all
    show "(the (stored_slot P ?ci ((case a of (q, c) \<Rightarrow> colnums ?sp ! q * ?cs + c) div ?cs)),
           (case a of (q, c) \<Rightarrow> colnums ?sp ! q * ?cs + c) mod ?cs) = a"
      using d dm by (simp add: qc)
    show "(case a of (q, c) \<Rightarrow> colnums ?sp ! q * ?cs + c) \<in> J"
      using d dm by (simp add: qc J_def)
  qed
  finally show ?thesis using lhs by simp
qed

lemma row_sums_logical_product:
  assumes "valid_pattern P"
  shows "map (row_sum P values src) [0..<n_rows P] = logical_product P values src"
  unfolding logical_product_def
  by (rule map_cong) (simp_all add: row_sum_logical[OF assms])

lemma el_off_padding:
  assumes v: "valid_pattern P" and i: "i < n_rows P" and j: "j < n_cols P"
    and eq: "\<And>p. p < required_len P \<Longrightarrow> \<not> padding_position P p \<Longrightarrow> values' ! p = values ! p"
  shows "el P values' i j = el P values i j"
proof (cases "compute_location P i j")
  case None
  then show ?thesis by (simp add: el_def)
next
  case (Some idx)
  from compute_location_logical[OF v i j Some] eq[of idx] Some
  show ?thesis by (simp add: el_def)
qed

lemma logical_product_off_padding:
  assumes v: "valid_pattern P"
    and eq: "\<And>p. p < required_len P \<Longrightarrow> \<not> padding_position P p \<Longrightarrow> values' ! p = values ! p"
  shows "logical_product P values' src = logical_product P values src"
proof -
  have "(\<Sum>j\<leftarrow>[0..<n_cols P]. el P values' i j * src ! j)
        = (\<Sum>j\<leftarrow>[0..<n_cols P]. el P values i j * src ! j)" if "i < n_rows P" for i
    by (rule arg_cong[where f = sum_list], rule map_cong)
       (simp_all add: el_off_padding[OF v that _ eq])
  then show ?thesis by (simp add: logical_product_def)
qed

text \<open>
  C1: for a matrix bound to a valid pattern, with a value array that holds the
  pattern's chunks, and two distinct vectors of the logical sizes, \<open>vmult\<close> returns
  and overwrites \<open>dst\<close> with the logical matrix-vector product (an entry that is not
  stored counts as 0). The result does not depend on the prior contents of \<open>dst\<close>,
  and it does not depend on the values at the padding positions: they are never read,
  so the product is right whether or not they are zero. The matrix is a constant
  argument and is not written.
\<close>

theorem vmult_logical_product:
  assumes "cols M = Some a" "val M = Some values" "patterns env a = Some P"
    "valid_pattern P" "required_len P \<le> length (values :: 'a::comm_ring_1 list)"
    "length (vecs dst) = n_rows P" "length (vecs src) = n_cols P" "src \<noteq> dst"
  shows "vmult env M vecs dst src = Inr (vecs(dst := logical_product P values (vecs src)))
       \<and> (\<forall>d. length d = n_rows P
            \<longrightarrow> vmult env M (vecs(dst := d)) dst src = vmult env M vecs dst src)
       \<and> (\<forall>values'. required_len P \<le> length values'
              \<and> (\<forall>p<required_len P. \<not> padding_position P p \<longrightarrow> values' ! p = values ! p)
            \<longrightarrow> vmult env (M\<lparr>val := Some values'\<rparr>) vecs dst src = vmult env M vecs dst src)"
proof (intro conjI allI impI)
  show r: "vmult env M vecs dst src = Inr (vecs(dst := logical_product P values (vecs src)))"
    by (simp only: vmult_result[OF assms] row_sums_logical_product[OF assms(4)])
  {
    fix d :: "'a list" assume d: "length d = n_rows P"
    have "vmult env M (vecs(dst := d)) dst src
          = Inr ((vecs(dst := d))(dst := map (row_sum P values ((vecs(dst := d)) src)) [0..<n_rows P]))"
      using assms(7,8) d by (intro vmult_result[OF assms(1-5)]) simp_all
    then show "vmult env M (vecs(dst := d)) dst src = vmult env M vecs dst src"
      using assms(8) by (simp add: r row_sums_logical_product[OF assms(4)])
  }
  {
    fix values' :: "'a list"
    assume h: "required_len P \<le> length values'
              \<and> (\<forall>p<required_len P. \<not> padding_position P p \<longrightarrow> values' ! p = values ! p)"
    have "vmult env (M\<lparr>val := Some values'\<rparr>) vecs dst src
          = Inr (vecs(dst := map (row_sum P values' (vecs src)) [0..<n_rows P]))"
      using assms(1) h by (intro vmult_result[OF _ _ assms(3,4) _ assms(6-8)]) simp_all
    moreover have "logical_product P values' (vecs src) = logical_product P values (vecs src)"
      using h by (intro logical_product_off_padding[OF assms(4)]) simp
    ultimately show "vmult env (M\<lparr>val := Some values'\<rparr>) vecs dst src = vmult env M vecs dst src"
      by (simp add: r row_sums_logical_product[OF assms(4)])
  }
qed

lemma logical_product_3x3:
  "logical_product pattern_3x3 [1, 0, 0, 1, 1, p1, p2, p3] [1, 2, 3 :: int] = [1, 2, 3]"
  by (simp add: logical_product_def el_def compute_location_def stored_slot_def pattern_3x3_def
        upt_rec[of _ "numeral _"] upt_rec[of _ "Suc _"])

text \<open>
  The scenario of the specification: chunk size 2, a \<open>3 \<times> 3\<close> matrix with the chunks
  \<open>(0,0)\<close> and \<open>(1,1)\<close> and the entries \<open>(0,0) = (1,1) = (2,2) = 1\<close>, times
  \<open>[1, 2, 3]\<close>, is \<open>[1, 2, 3]\<close>, whatever the three padding positions hold and whatever
  \<open>dst\<close> held.
\<close>

theorem vmult_logical_product_witness:
  "\<forall>p1 p2 p3.
     vmult example_env
       \<lparr>cols = Some 0, val = Some [1, 0, 0, 1, 1, p1, p2, p3 :: int], max_len = 8,
        allocations = 1\<rparr>
       (\<lambda>a. if a = 1 then [1, 2, 3] else [9, 9, 9]) 0 1
     = Inr ((\<lambda>a. if a = 1 then [1, 2, 3] else [9, 9, 9])(0 := [1, 2, 3]))"
proof (intro allI)
  fix p1 p2 p3 :: int
  let ?M = "\<lparr>cols = Some 0, val = Some [1, 0, 0, 1, 1, p1, p2, p3], max_len = 8,
             allocations = 1\<rparr>"
  let ?vecs = "\<lambda>a :: nat. if a = 1 then [1, 2, 3 :: int] else [9, 9, 9]"
  have p: "patterns example_env 0 = Some pattern_3x3" by (simp add: example_env_def)
  have n: "n_rows pattern_3x3 = 3" "n_cols pattern_3x3 = 3" by (simp_all add: pattern_3x3_def)
  have "vmult example_env ?M ?vecs 0 1
        = Inr (?vecs(0 := logical_product pattern_3x3 [1, 0, 0, 1, 1, p1, p2, p3] (?vecs 1)))"
    using vmult_logical_product[of ?M 0 "[1, 0, 0, 1, 1, p1, p2, p3]" example_env pattern_3x3
        ?vecs 0 1, OF _ _ p valid_pattern_3x3]
    by (simp add: required_len_3x3 n)
  then show "vmult example_env ?M ?vecs 0 1 = Inr (?vecs(0 := [1, 2, 3]))"
    by (simp add: logical_product_3x3)
qed

theorem traversal_cursors_exact_witness:
  "\<exists>dst'. vmult_add_walk pattern_3x3 0 2 [1, 0, 0, 1, 1, 0, 0, 0] [0, 1, 2] [0, 1]
              [1, 2, 3] [0, 0, 0 :: int] = Inr (8, 2, dst')
          \<and> vmult_add_on_subrange pattern_3x3 0 2 [1, 0, 0, 1, 1, 0, 0, 0] [0, 1, 2] [0, 1]
              [1, 2, 3] [0, 0, 0 :: int] = Inr dst'"
proof -
  have s: "rowstart (sparsity_pattern pattern_3x3) = [0, 1, 2]"
    "colnums (sparsity_pattern pattern_3x3) = [0, 1]"
    "sp_rows (sparsity_pattern pattern_3x3) = 2" "chunk_size pattern_3x3 = 2"
    "n_rows pattern_3x3 = 3" "n_cols pattern_3x3 = 3"
    by (simp_all add: pattern_3x3_def)
  from traversal_cursors_exact[of pattern_3x3 0 2 "[1, 0, 0, 1, 1, 0, 0, 0 :: int]"
      "[1, 2, 3]" "[0, 0, 0]", OF valid_pattern_3x3]
  show ?thesis by (simp add: s required_len_3x3)
qed


subsection \<open>The residual\<close>

lemma regular_col_test:
  assumes v: "valid_pattern P" and q: "q < length (colnums (sparsity_pattern P))"
  shows "(\<not> n_cols P mod chunk_size P \<noteq> 0
           \<or> Suc (colnums (sparsity_pattern P) ! q) \<noteq> sp_cols (sparsity_pattern P))
         \<longleftrightarrow> colnums (sparsity_pattern P) ! q \<noteq> n_cols P div chunk_size P"
proof (cases "n_cols P mod chunk_size P = 0")
  case True
  then show ?thesis
    using valid_patternD(8)[OF v q] exact_chunk_cols[OF v True] by simp
next
  case False
  then show ?thesis using last_chunk_col[OF v False] by auto
qed

lemma residual_body_regular:
  assumes v: "valid_pattern P" and q: "q < length (colnums (sparsity_pattern P))"
    and lv: "required_len P \<le> length (values :: 'a::comm_ring_1 list)"
    and ls: "length u = n_cols P"
    and ld: "chunk_size P * cr + chunk_size P \<le> length d"
  shows "(if \<not> n_cols P mod chunk_size P \<noteq> 0
             \<or> Suc (colnums (sparsity_pattern P) ! q) \<noteq> sp_cols (sparsity_pattern P)
          then chunk_vmult_subtract (chunk_size P) values (q * (chunk_size P * chunk_size P)) u
                 (colnums (sparsity_pattern P) ! q * chunk_size P) d (chunk_size P * cr)
          else padded_chunk_subtract (chunk_size P) (chunk_size P) (n_cols P mod chunk_size P)
                 values (q * (chunk_size P * chunk_size P)) u
                 (colnums (sparsity_pattern P) ! q) d cr)
         = Inr (add_rows d (chunk_size P * cr) (chunk_size P * cr + chunk_size P)
             (\<lambda>x. - 1 * chunk_row_sum (chunk_size P) values (q * (chunk_size P * chunk_size P))
                       u (colnums (sparsity_pattern P) ! q * chunk_size P)
                       (chunk_cols P (colnums (sparsity_pattern P) ! q))
                       (x - chunk_size P * cr)))"
proof (cases "colnums (sparsity_pattern P) ! q \<noteq> n_cols P div chunk_size P")
  case True
  have "colnums (sparsity_pattern P) ! q * chunk_size P + chunk_size P \<le> length u"
    using regular_col_bound[OF v q] True ls by simp
  from chunk_vmult_subtract_rows[OF slot_in_values[OF v q lv] this ld] True
    regular_col_test[OF v q]
  show ?thesis by (simp add: chunk_cols_def)
next
  case False
  have b: "colnums (sparsity_pattern P) ! q * chunk_size P + n_cols P mod chunk_size P \<le> length u"
    using False ls by simp
  have ld': "cr * chunk_size P + chunk_size P \<le> length d" using ld by (simp add: mult.commute)
  from padded_chunk_subtract_rows[OF slot_in_values[OF v q lv] b ld' order_refl]
    valid_patternD(1)[OF v] False regular_col_test[OF v q]
  show ?thesis by (simp add: chunk_cols_def mult.commute)
qed

lemma residual_body_last:
  assumes v: "valid_pattern P" and q: "q < length (colnums (sparsity_pattern P))"
    and lv: "required_len P \<le> length (values :: 'a::comm_ring_1 list)"
    and ls: "length u = n_cols P"
    and nr: "nr \<le> chunk_size P"
    and ld: "chunk_size P * cr + nr \<le> length d"
  shows "(if \<not> n_cols P mod chunk_size P \<noteq> 0
             \<or> Suc (colnums (sparsity_pattern P) ! q) \<noteq> sp_cols (sparsity_pattern P)
          then padded_chunk_subtract (chunk_size P) nr (chunk_size P)
                 values (q * (chunk_size P * chunk_size P)) u
                 (colnums (sparsity_pattern P) ! q) d cr
          else padded_chunk_subtract (chunk_size P) nr (n_cols P mod chunk_size P)
                 values (q * (chunk_size P * chunk_size P)) u
                 (colnums (sparsity_pattern P) ! q) d cr)
         = Inr (add_rows d (chunk_size P * cr) (chunk_size P * cr + nr)
             (\<lambda>x. - 1 * chunk_row_sum (chunk_size P) values (q * (chunk_size P * chunk_size P))
                       u (colnums (sparsity_pattern P) ! q * chunk_size P)
                       (chunk_cols P (colnums (sparsity_pattern P) ! q))
                       (x - chunk_size P * cr)))"
proof (cases "colnums (sparsity_pattern P) ! q \<noteq> n_cols P div chunk_size P")
  case True
  have b: "colnums (sparsity_pattern P) ! q * chunk_size P + chunk_size P \<le> length u"
    using regular_col_bound[OF v q] True ls by simp
  have ld': "cr * chunk_size P + nr \<le> length d" using ld by (simp add: mult.commute)
  from padded_chunk_subtract_rows[OF slot_in_values[OF v q lv] b ld' nr order_refl] True
    regular_col_test[OF v q]
  show ?thesis by (simp add: chunk_cols_def mult.commute)
next
  case False
  have b: "colnums (sparsity_pattern P) ! q * chunk_size P + n_cols P mod chunk_size P \<le> length u"
    using False ls by simp
  have ld': "cr * chunk_size P + nr \<le> length d" using ld by (simp add: mult.commute)
  from padded_chunk_subtract_rows[OF slot_in_values[OF v q lv] b ld' nr]
    valid_patternD(1)[OF v] False regular_col_test[OF v q]
  show ?thesis by (simp add: chunk_cols_def mult.commute)
qed

lemma residual_regular_rows:
  assumes v: "valid_pattern P" and be: "b \<le> e" and e: "e * chunk_size P \<le> n_rows P"
    and lv: "required_len P \<le> length (values :: 'a::comm_ring_1 list)"
    and ls: "length u = n_cols P"
    and ld: "length dst = n_rows P"
  shows "for_loop [b..<e]
           (\<lambda>chunk_row (val_ptr, colnum_ptr, dst_ptr, dst).
              bind_err (rd (rowstart (sparsity_pattern P)) (chunk_row + 1)) (\<lambda>next_row.
              bind_err
                (chunk_while
                   (\<lambda>val_ptr col dst.
                      if \<not> n_cols P mod chunk_size P \<noteq> 0
                         \<or> Suc col \<noteq> sp_cols (sparsity_pattern P)
                      then chunk_vmult_subtract (chunk_size P) values val_ptr u
                             (col * chunk_size P) dst dst_ptr
                      else padded_chunk_subtract (chunk_size P) (chunk_size P)
                             (n_cols P mod chunk_size P) values val_ptr u col dst chunk_row)
                   (colnums (sparsity_pattern P)) (chunk_size P * chunk_size P)
                   (next_row * chunk_size P * chunk_size P) val_ptr colnum_ptr dst)
                (\<lambda>(val_ptr, colnum_ptr, dst).
                   Inr (val_ptr, colnum_ptr, dst_ptr + chunk_size P, dst))))
           (rowstart (sparsity_pattern P) ! b * chunk_size P * chunk_size P,
            rowstart (sparsity_pattern P) ! b, chunk_size P * b, dst)
         = Inr (rowstart (sparsity_pattern P) ! e * chunk_size P * chunk_size P,
                rowstart (sparsity_pattern P) ! e, chunk_size P * e,
                add_rows dst (chunk_size P * b) (chunk_size P * e)
                  (\<lambda>x. - 1 * row_sum P values u x))"
  using be e
proof (induction e rule: dec_induct)
  case base
  then show ?case by simp
next
  case (step e')
  let ?sp = "sparsity_pattern P" and ?cs = "chunk_size P"
  let ?f = "\<lambda>x. - 1 * row_sum P values u x"
  let ?D = "add_rows dst (?cs * b) (?cs * e') ?f"
  have e': "e' * ?cs \<le> n_rows P" "?cs * e' + ?cs \<le> n_rows P"
    using step.prems by (simp_all add: mult.commute)
  have cr: "e' < sp_rows ?sp" using full_rows_le_sp_rows[OF v step.prems] by simp
  have rdn: "rd (rowstart ?sp) (e' + 1) = Inr (rowstart ?sp ! (e' + 1))"
    using cr valid_patternD(4)[OF v] by simp
  have row: "chunk_while
                   (\<lambda>val_ptr col dst.
                      if \<not> n_cols P mod ?cs \<noteq> 0 \<or> Suc col \<noteq> sp_cols ?sp
                      then chunk_vmult_subtract ?cs values val_ptr u (col * ?cs) dst (?cs * e')
                      else padded_chunk_subtract ?cs ?cs (n_cols P mod ?cs) values val_ptr u col
                             dst e')
                   (colnums ?sp) (?cs * ?cs)
                   (rowstart ?sp ! (e' + 1) * (?cs * ?cs)) (rowstart ?sp ! e' * (?cs * ?cs))
                   (rowstart ?sp ! e') ?D
         = Inr (rowstart ?sp ! (e' + 1) * (?cs * ?cs), rowstart ?sp ! (e' + 1),
                add_rows ?D (?cs * e') (?cs * e' + ?cs) (\<lambda>x. - 1 * row_sum P values u x))"
  proof (rule row_while[OF v cr order_refl])
    fix q and d :: "'a list"
    assume q: "rowstart ?sp ! e' \<le> q" "q < rowstart ?sp ! (e' + 1)" and d: "length d = length ?D"
    have ql: "q < length (colnums ?sp)" using slot_lt_nnz[OF v cr q(2)] .
    have dl: "?cs * e' + ?cs \<le> length d" using d ld e'(2) by simp
    show "(if \<not> n_cols P mod ?cs \<noteq> 0 \<or> Suc (colnums ?sp ! q) \<noteq> sp_cols ?sp
           then chunk_vmult_subtract ?cs values (q * (?cs * ?cs)) u (colnums ?sp ! q * ?cs) d
                  (?cs * e')
           else padded_chunk_subtract ?cs ?cs (n_cols P mod ?cs) values (q * (?cs * ?cs)) u
                  (colnums ?sp ! q) d e')
          = Inr (add_rows d (?cs * e') (?cs * e' + ?cs)
               (\<lambda>x. - 1 * chunk_row_sum ?cs values (q * (?cs * ?cs)) u (colnums ?sp ! q * ?cs)
                          (chunk_cols P (colnums ?sp ! q)) (x - ?cs * e')))"
      by (rule residual_body_regular[OF v ql lv ls dl])
  qed
  have merge: "add_rows ?D (?cs * e') (?cs * e' + ?cs) ?f = add_rows dst (?cs * b) (?cs * Suc e') ?f"
    using step.hyps(1) by (simp add: add_rows_adjacent add.commute)
  have ih: "for_loop [b..<e']
           (\<lambda>chunk_row (val_ptr, colnum_ptr, dst_ptr, dst).
              bind_err (rd (rowstart ?sp) (chunk_row + 1)) (\<lambda>next_row.
              bind_err
                (chunk_while
                   (\<lambda>val_ptr col dst.
                      if \<not> n_cols P mod ?cs \<noteq> 0 \<or> Suc col \<noteq> sp_cols ?sp
                      then chunk_vmult_subtract ?cs values val_ptr u (col * ?cs) dst dst_ptr
                      else padded_chunk_subtract ?cs ?cs (n_cols P mod ?cs) values val_ptr u col
                             dst chunk_row)
                   (colnums ?sp) (?cs * ?cs) (next_row * ?cs * ?cs) val_ptr colnum_ptr dst)
                (\<lambda>(val_ptr, colnum_ptr, dst). Inr (val_ptr, colnum_ptr, dst_ptr + ?cs, dst))))
           (rowstart ?sp ! b * ?cs * ?cs, rowstart ?sp ! b, ?cs * b, dst)
         = Inr (rowstart ?sp ! e' * ?cs * ?cs, rowstart ?sp ! e', ?cs * e', ?D)"
    using step.IH e'(1) by simp
  show ?case
    using step.hyps(1) ih rdn row merge
    by (simp add: for_loop_snoc mult.assoc)
qed

lemma residual_walk_result:
  assumes v: "valid_pattern P"
    and lv: "required_len P \<le> length (values :: 'a::comm_ring_1 list)"
    and ls: "length u = n_cols P"
    and ld: "length dst = n_rows P"
  shows "residual_walk P values u dst
         = Inr (length (colnums (sparsity_pattern P)) * chunk_size P * chunk_size P,
                length (colnums (sparsity_pattern P)),
                add_rows dst 0 (n_rows P) (\<lambda>x. - 1 * row_sum P values u x))"
proof -
  let ?sp = "sparsity_pattern P" and ?cs = "chunk_size P" and ?m = "n_rows P"
  let ?f = "\<lambda>x. - 1 * row_sum P values u x"
  let ?L = "?m div ?cs"
  have cs: "0 < ?cs" using valid_patternD(1)[OF v] .
  have r0: "rowstart ?sp ! 0 = 0" using valid_patternD(5)[OF v] .
  have rN: "rowstart ?sp ! sp_rows ?sp = length (colnums ?sp)" using valid_patternD(6)[OF v] .
  note rows = residual_regular_rows[OF v _ _ lv ls ld, of 0, simplified r0, simplified]
  show ?thesis
  proof (cases "?m mod ?cs = 0")
    case True
    have spr: "sp_rows ?sp = ?L" using exact_chunk_rows[OF v True] .
    have full: "?L * ?cs \<le> ?m" by simp
    have "?cs * ?L + ?m mod ?cs = ?m" by (rule mult_div_mod_eq)
    with True have m: "?cs * ?L = ?m" by linarith
    show ?thesis
      using True cs rows[OF full] rN
      by (simp add: residual_walk_def Let_def spr m)
  next
    case False
    have spr: "sp_rows ?sp = ?L + 1" using last_chunk_row[OF v False] .
    have full: "?L * ?cs \<le> ?m" by simp
    have mL: "?cs * ?L + ?m mod ?cs = ?m" by simp
    let ?D = "add_rows dst 0 (?cs * ?L) ?f"
    have cr: "?L < sp_rows ?sp" using spr by simp
    have nrle: "?m mod ?cs \<le> ?cs" using cs by simp
    have rdn: "rd (rowstart ?sp) (?L + 1) = Inr (rowstart ?sp ! (?L + 1))"
      using spr valid_patternD(4)[OF v] by simp
    have row: "chunk_while
                   (\<lambda>val_ptr col dst.
                      if \<not> n_cols P mod ?cs \<noteq> 0 \<or> Suc col \<noteq> sp_cols ?sp
                      then padded_chunk_subtract ?cs (?m mod ?cs) ?cs values val_ptr u col dst ?L
                      else padded_chunk_subtract ?cs (?m mod ?cs) (n_cols P mod ?cs) values
                             val_ptr u col dst ?L)
                   (colnums ?sp) (?cs * ?cs)
                   (rowstart ?sp ! (?L + 1) * (?cs * ?cs)) (rowstart ?sp ! ?L * (?cs * ?cs))
                   (rowstart ?sp ! ?L) ?D
         = Inr (rowstart ?sp ! (?L + 1) * (?cs * ?cs), rowstart ?sp ! (?L + 1),
                add_rows ?D (?cs * ?L) (?cs * ?L + ?m mod ?cs) (\<lambda>x. - 1 * row_sum P values u x))"
    proof (rule row_while[OF v cr nrle])
      fix q and d :: "'a list"
      assume q: "rowstart ?sp ! ?L \<le> q" "q < rowstart ?sp ! (?L + 1)"
        and d: "length d = length ?D"
      have ql: "q < length (colnums ?sp)" using slot_lt_nnz[OF v cr q(2)] .
      have dl: "?cs * ?L + ?m mod ?cs \<le> length d" using d ld by simp
      show "(if \<not> n_cols P mod ?cs \<noteq> 0 \<or> Suc (colnums ?sp ! q) \<noteq> sp_cols ?sp
             then padded_chunk_subtract ?cs (?m mod ?cs) ?cs values (q * (?cs * ?cs)) u
                    (colnums ?sp ! q) d ?L
             else padded_chunk_subtract ?cs (?m mod ?cs) (n_cols P mod ?cs) values
                    (q * (?cs * ?cs)) u (colnums ?sp ! q) d ?L)
            = Inr (add_rows d (?cs * ?L) (?cs * ?L + ?m mod ?cs)
                 (\<lambda>x. - 1 * chunk_row_sum ?cs values (q * (?cs * ?cs)) u
                            (colnums ?sp ! q * ?cs) (chunk_cols P (colnums ?sp ! q))
                            (x - ?cs * ?L)))"
        by (rule residual_body_last[OF v ql lv ls nrle dl])
    qed
    have merge: "add_rows ?D (?cs * ?L) (?cs * ?L + ?m mod ?cs) ?f = add_rows dst 0 ?m ?f"
      by (simp only: mL) (simp add: add_rows_adjacent)
    have rN': "rowstart ?sp ! Suc ?L = length (colnums ?sp)" using rN spr by simp
    show ?thesis
      using False cs rows[OF full] rdn row merge rN'
      by (simp add: residual_walk_def Let_def spr mult.assoc)
  qed
qed

lemma subtract_rows_logical:
  assumes v: "valid_pattern P" and lb: "length bv = n_rows P"
  shows "add_rows bv 0 (n_rows P) (\<lambda>x. - 1 * row_sum P values u x)
         = map (\<lambda>i. bv ! i - logical_product P values u ! i) [0..<n_rows P]"
proof (intro nth_equalityI)
  show "length (add_rows bv 0 (n_rows P) (\<lambda>x. - 1 * row_sum P values u x))
        = length (map (\<lambda>i. bv ! i - logical_product P values u ! i) [0..<n_rows P])"
    using lb by simp
  fix i assume "i < length (add_rows bv 0 (n_rows P) (\<lambda>x. - 1 * row_sum P values u x))"
  then have i: "i < n_rows P" using lb by simp
  have "logical_product P values u ! i = row_sum P values u i"
    using i by (simp add: row_sums_logical_product[OF v, symmetric])
  then show "add_rows bv 0 (n_rows P) (\<lambda>x. - 1 * row_sum P values u x) ! i
             = map (\<lambda>i. bv ! i - logical_product P values u ! i) [0..<n_rows P] ! i"
    using i lb by (simp add: nth_add_rows)
qed

lemma logical_product_zero:
  "logical_product P values (replicate (n_cols P) 0) = replicate (n_rows P) 0"
proof -
  have "(\<Sum>j\<leftarrow>[0..<n_cols P]. el P values i j * replicate (n_cols P) 0 ! j) = 0" for i
    by (simp add: interv_sum_list_conv_sum_set_nat)
  then show ?thesis
    by (simp add: logical_product_def map_replicate_const)
qed

text \<open>
  C4: for a matrix bound to a valid pattern, with a value array that holds the
  pattern's chunks, vectors \<open>dst\<close> and \<open>b\<close> of size \<open>m\<close> and \<open>u\<close> of size \<open>n\<close>, and
  \<open>u\<close> not the same object as \<open>dst\<close>, \<open>residual\<close> returns, sets \<open>dst\<close> to
  \<open>b - A u\<close> and returns the Euclidean norm of that vector; for \<open>u = 0\<close> it returns the
  Euclidean norm of \<open>b\<close> and sets \<open>dst\<close> to \<open>b\<close>.
\<close>

theorem residual_correct:
  assumes "cols M = Some a" "val M = Some values" "patterns env a = Some P"
    "valid_pattern P" "required_len P \<le> length values"
    "length (vecs dst) = n_rows P" "length (vecs b) = n_rows P"
    "length (vecs u) = n_cols P" "u \<noteq> dst"
  shows "residual env M vecs dst u b
           = Inr (l2_norm (map (\<lambda>i. vecs b ! i - logical_product P values (vecs u) ! i)
                             [0..<n_rows P]),
                  vecs(dst := map (\<lambda>i. vecs b ! i - logical_product P values (vecs u) ! i)
                                [0..<n_rows P]))
       \<and> (vecs u = replicate (n_cols P) 0
            \<longrightarrow> residual env M vecs dst u b = Inr (l2_norm (vecs b), vecs(dst := vecs b)))"
proof -
  let ?r = "map (\<lambda>i. vecs b ! i - logical_product P values (vecs u) ! i) [0..<n_rows P]"
  have w: "residual_walk P values (vecs u) (vecs b)
           = Inr (length (colnums (sparsity_pattern P)) * chunk_size P * chunk_size P,
                  length (colnums (sparsity_pattern P)), ?r)"
    using residual_walk_result[OF assms(4,5,8,7)] subtract_rows_logical[OF assms(4,7)]
    by simp
  have 1: "residual env M vecs dst u b = Inr (l2_norm ?r, vecs(dst := ?r))"
    using assms(1-3,6-9) w by (simp add: residual_def)
  have 2: "?r = vecs b" if "vecs u = replicate (n_cols P) 0"
  proof -
    have "?r = map (\<lambda>i. vecs b ! i) [0..<n_rows P]"
      by (rule map_cong) (simp_all add: that logical_product_zero)
    also have "\<dots> = map (\<lambda>i. vecs b ! i) [0..<length (vecs b)]" by (simp only: assms(7))
    also have "\<dots> = vecs b" by (rule map_nth)
    finally show ?thesis .
  qed
  show ?thesis using 1 2 by simp
qed

lemma l2_norm_3_4_0: "l2_norm [3, 4, 0] = 5"
proof -
  have "sqrt 25 = 5" by (rule real_sqrt_unique) simp_all
  then show ?thesis by (simp add: l2_norm_def)
qed

theorem residual_correct_witness:
  "residual example_env
     \<lparr>cols = Some 0, val = Some [1, 0, 0, 1, 1, 0, 0, 0], max_len = 8, allocations = 1\<rparr>
     (\<lambda>a. if a = 1 then [1, 2, 3] else if a = 2 then [4, 6, 3] else [9, 9, 9]) 0 1 2
   = Inr (5, (\<lambda>a. if a = 1 then [1, 2, 3] else if a = 2 then [4, 6, 3] else [9, 9, 9])
               (0 := [3, 4, 0]))
   \<and> residual example_env
     \<lparr>cols = Some 0, val = Some [1, 0, 0, 1, 1, 0, 0, 0], max_len = 8, allocations = 1\<rparr>
     (\<lambda>a. if a = 1 then [0, 0, 0] else if a = 2 then [3, 4, 0] else [9, 9, 9]) 0 1 2
   = Inr (5, (\<lambda>a. if a = 1 then [0, 0, 0] else if a = 2 then [3, 4, 0] else [9, 9, 9])
               (0 := [3, 4, 0]))"
proof -
  let ?M = "\<lparr>cols = Some 0, val = Some [1, 0, 0, 1, 1, 0, 0, 0 :: real], max_len = 8,
             allocations = 1\<rparr>"
  let ?v1 = "\<lambda>a :: nat. if a = 1 then [1, 2, 3 :: real] else if a = 2 then [4, 6, 3] else [9, 9, 9]"
  let ?v2 = "\<lambda>a :: nat. if a = 1 then [0, 0, 0 :: real] else if a = 2 then [3, 4, 0] else [9, 9, 9]"
  have p: "patterns example_env 0 = Some pattern_3x3" by (simp add: example_env_def)
  have n: "n_rows pattern_3x3 = 3" "n_cols pattern_3x3 = 3" by (simp_all add: pattern_3x3_def)
  have lp: "logical_product pattern_3x3 [1, 0, 0, 1, 1, 0, 0, 0] [1, 2, 3 :: real] = [1, 2, 3]"
    by (simp add: logical_product_def el_def compute_location_def stored_slot_def pattern_3x3_def
        upt_rec[of _ "numeral _"] upt_rec[of _ "Suc _"])
  have u3: "[0 ..< 3] = [0, 1, 2]" by (simp add: upt_rec[of _ "numeral _"] upt_rec[of _ "Suc _"])
  have "residual example_env ?M ?v1 0 1 2
        = Inr (l2_norm (map (\<lambda>i. ?v1 2 ! i
                 - logical_product pattern_3x3 [1, 0, 0, 1, 1, 0, 0, 0] (?v1 1) ! i) [0..<3]),
               ?v1(0 := map (\<lambda>i. ?v1 2 ! i
                 - logical_product pattern_3x3 [1, 0, 0, 1, 1, 0, 0, 0] (?v1 1) ! i) [0..<3]))"
    using residual_correct[of ?M 0 "[1, 0, 0, 1, 1, 0, 0, 0]" example_env pattern_3x3 ?v1 0 2 1,
        OF _ _ p valid_pattern_3x3]
    by (simp add: required_len_3x3 n)
  then have 1: "residual example_env ?M ?v1 0 1 2 = Inr (5, ?v1(0 := [3, 4, 0]))"
    by (simp add: lp u3 l2_norm_3_4_0)
  have z: "?v2 1 = replicate (n_cols pattern_3x3) 0" by (simp add: n numeral_3_eq_3)
  have "?v2 1 = replicate (n_cols pattern_3x3) 0
        \<longrightarrow> residual example_env ?M ?v2 0 1 2 = Inr (l2_norm (?v2 2), ?v2(0 := ?v2 2))"
    by (rule conjunct2,
        rule residual_correct[of ?M 0 "[1, 0, 0, 1, 1, 0, 0, 0]" example_env pattern_3x3 ?v2 0 2 1,
          OF _ _ p valid_pattern_3x3])
       (simp_all add: required_len_3x3 n)
  with z have "residual example_env ?M ?v2 0 1 2 = Inr (l2_norm (?v2 2), ?v2(0 := ?v2 2))"
    by (rule rev_mp)
  then have 2: "residual example_env ?M ?v2 0 1 2 = Inr (5, ?v2(0 := [3, 4, 0]))"
    by (simp add: l2_norm_3_4_0)
  from 1 2 show ?thesis by simp
qed


subsection \<open>Block output and input\<close>

lemma digit_char_props:
  assumes "d < 10"
  shows "is_digit (digit_char d)" "digit_val (digit_char d) = d" "\<not> is_space (digit_char d)"
  using assms by (simp_all add: is_digit_def digit_val_def is_space_def digit_char_def)

lemma bracket_props:
  "\<not> is_digit (CHR '']'')" "\<not> is_space (CHR '']'')" "\<not> is_space (CHR ''['')"
  by (simp_all add: is_digit_def is_space_def)

lemma show_nat_digits: "\<forall>c\<in>set (show_nat n). is_digit c \<and> \<not> is_space c"
proof (induction n rule: show_nat.induct)
  case (1 n)
  show ?case
  proof (cases "n < 10")
    case True
    then show ?thesis by (subst show_nat.simps) (simp add: digit_char_props)
  next
    case False
    then show ?thesis
      using "1.IH" by (subst show_nat.simps) (simp add: digit_char_props)
  qed
qed

lemma show_nat_nonempty: "show_nat n \<noteq> []"
  by (subst show_nat.simps) simp

lemma parse_nat_snoc: "parse_nat (ds @ [d]) = parse_nat ds * 10 + digit_val d"
  by (simp add: parse_nat_def)

lemma parse_show_nat: "parse_nat (show_nat n) = n"
proof (induction n rule: show_nat.induct)
  case (1 n)
  show ?case
  proof (cases "n < 10")
    case True
    then show ?thesis by (subst show_nat.simps) (simp add: parse_nat_def digit_char_props)
  next
    case False
    then show ?thesis
      using "1.IH" by (subst show_nat.simps) (simp add: parse_nat_snoc digit_char_props)
  qed
qed

lemma get_nat_show:
  "get_nat k \<lparr>unread = show_nat n @ CHR '']'' # rest, in_fail = False\<rparr>
   = (n, \<lparr>unread = CHR '']'' # rest, in_fail = False\<rparr>)"
proof -
  let ?s = "show_nat n @ CHR '']'' # rest"
  obtain d ds where s: "show_nat n = d # ds" using show_nat_nonempty by (cases "show_nat n") auto
  have ns: "\<not> is_space d" using show_nat_digits[of n] s by simp
  have sp: "dropWhile is_space ?s = ?s" using ns s by simp
  have dg: "\<And>c. c \<in> set (show_nat n) \<Longrightarrow> is_digit c" using show_nat_digits by blast
  have tw: "takeWhile is_digit ?s = show_nat n"
    using dg by (simp add: takeWhile_append2 bracket_props)
  have dw: "dropWhile is_digit ?s = CHR '']'' # rest"
    using dg by (simp add: dropWhile_append2 bracket_props)
  show ?thesis
    by (simp add: get_nat_def Let_def sp tw dw show_nat_nonempty parse_show_nat)
qed

lemma get_char_bracket:
  assumes "\<not> is_space x"
  shows "get_char c \<lparr>unread = x # rest, in_fail = False\<rparr>
         = (Some x, \<lparr>unread = rest, in_fail = False\<rparr>)"
  using assms by (simp add: get_char_def)

lemma decode_encode:
  assumes "\<forall>x\<in>set xs. length (to_bytes repr x) = sizeof_number repr
                       \<and> from_bytes repr (to_bytes repr x) = x"
  shows "decode repr (length xs) (concat (map (to_bytes repr) xs)) = xs"
  using assms by (induction xs) simp_all

lemma length_encode:
  assumes "\<forall>x\<in>set xs. length (to_bytes repr x) = sizeof_number repr"
  shows "length (concat (map (to_bytes repr) xs)) = length xs * sizeof_number repr"
  using assms by (induction xs) simp_all

lemma put_ok: "\<not> out_fail out \<Longrightarrow> put s out = out\<lparr>written := written out @ s\<rparr>"
  by (simp add: put_def)

lemma block_write_text:
  assumes "val M = Some buf" "length buf = max_len M" "\<not> out_fail out"
  shows "block_write repr M out
         = Inr (out\<lparr>written := written out @ CHR ''['' # show_nat (max_len M)
                   @ CHR '']'' # CHR ''['' # concat (map (to_bytes repr) buf) @ [CHR '']'']\<rparr>)"
  using assms by (simp add: block_write_def Let_def put_ok array_of_def)

lemma block_read_text:
  assumes "\<forall>x\<in>set buf. length (to_bytes repr x) = sizeof_number repr
                        \<and> from_bytes repr (to_bytes repr x) = x"
  shows "block_read repr M'
           \<lparr>unread = (CHR ''['' # show_nat (length buf)
                   @ CHR '']'' # CHR ''['' # concat (map (to_bytes repr) buf) @ [CHR '']''])
                  @ rest,
            in_fail = False\<rparr>
         = Inr (M'\<lparr>val := Some buf, max_len := length buf, allocations := allocations M' + 1\<rparr>,
                \<lparr>unread = rest, in_fail = False\<rparr>)"
proof -
  let ?bytes = "concat (map (to_bytes repr) buf)"
  let ?n = "length buf"
  have len: "length ?bytes = ?n * sizeof_number repr"
    using assms by (intro length_encode) simp
  have dec: "decode repr ?n ?bytes = buf" using assms by (rule decode_encode)
  have g1: "get_char None \<lparr>unread = CHR ''['' # (show_nat ?n @ CHR '']'' # CHR ''['' # ?bytes @ CHR '']'' # rest),
                           in_fail = False\<rparr>
            = (Some (CHR ''[''), \<lparr>unread = show_nat ?n @ CHR '']'' # CHR ''['' # ?bytes @ CHR '']'' # rest,
                              in_fail = False\<rparr>)"
    by (rule get_char_bracket) (rule bracket_props)
  have g2: "get_nat k \<lparr>unread = show_nat ?n @ CHR '']'' # CHR ''['' # ?bytes @ CHR '']'' # rest,
                              in_fail = False\<rparr>
            = (?n, \<lparr>unread = CHR '']'' # CHR ''['' # ?bytes @ CHR '']'' # rest, in_fail = False\<rparr>)" for k
    by (rule get_nat_show)
  have g3: "get_char c \<lparr>unread = CHR '']'' # CHR ''['' # ?bytes @ CHR '']'' # rest, in_fail = False\<rparr>
            = (Some (CHR '']''), \<lparr>unread = CHR ''['' # ?bytes @ CHR '']'' # rest, in_fail = False\<rparr>)" for c
    by (rule get_char_bracket) (rule bracket_props)
  have g4: "get_char c \<lparr>unread = CHR ''['' # ?bytes @ CHR '']'' # rest, in_fail = False\<rparr>
            = (Some (CHR ''[''), \<lparr>unread = ?bytes @ CHR '']'' # rest, in_fail = False\<rparr>)" for c
    by (rule get_char_bracket) (rule bracket_props)
  have g5: "get_block (?n * sizeof_number repr) \<lparr>unread = ?bytes @ CHR '']'' # rest, in_fail = False\<rparr>
            = (Some ?bytes, \<lparr>unread = CHR '']'' # rest, in_fail = False\<rparr>)"
    using len by (simp add: get_block_def)
  have g6: "get_char c \<lparr>unread = CHR '']'' # rest, in_fail = False\<rparr>
            = (Some (CHR '']''), \<lparr>unread = rest, in_fail = False\<rparr>)" for c
    by (rule get_char_bracket) (rule bracket_props)
  show ?thesis
    by (simp add: block_read_def g1 g2 g3 g4 g5 g6 expect_char_def dec)
qed

text \<open>
  C6: for a matrix with an allocated array of \<open>max_len\<close> elements and an output stream
  that has not failed, \<open>block_write\<close> returns and appends
  \<open>'[' max_len '][' bytes ']'\<close> to the stream; \<open>block_read\<close> of that text, followed
  by anything, into any matrix returns with the original array as the array of the
  reading matrix, element for element, and with the stream positioned after the text.
  The object representation of a number is a parameter; the numbers in the array must
  have \<open>sizeof\<close> bytes each, and the bytes must determine the number.
\<close>

theorem block_write_read_roundtrip:
  assumes "val M = Some buf" "length buf = max_len M" "\<not> out_fail out"
    "\<forall>x\<in>set buf. length (to_bytes repr x) = sizeof_number repr
                 \<and> from_bytes repr (to_bytes repr x) = x"
  shows "\<exists>text. block_write repr M out = Inr (out\<lparr>written := written out @ text\<rparr>)
           \<and> (\<forall>M' rest.
                 block_read repr M' \<lparr>unread = text @ rest, in_fail = False\<rparr>
                 = Inr (M'\<lparr>val := Some buf, max_len := max_len M,
                           allocations := allocations M' + 1\<rparr>,
                        \<lparr>unread = rest, in_fail = False\<rparr>))"
  using block_write_text[OF assms(1-3), of repr] block_read_text[OF assms(4)] assms(2)
  by (intro exI[of _ "CHR ''['' # show_nat (max_len M)
                   @ CHR '']'' # CHR ''['' # concat (map (to_bytes repr) buf) @ [CHR '']'']"])
     simp

theorem block_write_read_roundtrip_witness:
  "\<exists>text.
     block_write byte_repr
       \<lparr>cols = Some 1, val = Some [1, 2, 3, 4], max_len = 4, allocations = 1\<rparr>
       \<lparr>written = [], out_fail = False\<rparr>
     = Inr \<lparr>written = text, out_fail = False\<rparr>
     \<and> block_read byte_repr
         \<lparr>cols = Some 1, val = Some [0, 0, 0, 0], max_len = 4, allocations = 1\<rparr>
         \<lparr>unread = text, in_fail = False\<rparr>
       = Inr (\<lparr>cols = Some 1, val = Some [1, 2, 3, 4], max_len = 4, allocations = 2\<rparr>,
              \<lparr>unread = [], in_fail = False\<rparr>)"
proof -
  let ?M = "\<lparr>cols = Some 1, val = Some [1, 2, 3, 4 :: int], max_len = 4, allocations = 1\<rparr>"
  let ?M' = "\<lparr>cols = Some 1, val = Some [0, 0, 0, 0 :: int], max_len = 4, allocations = 1\<rparr>"
  let ?out = "\<lparr>written = [], out_fail = False\<rparr>"
  have r: "\<forall>x\<in>set [1, 2, 3, 4 :: int].
             length (to_bytes byte_repr x) = sizeof_number byte_repr
             \<and> from_bytes byte_repr (to_bytes byte_repr x) = x"
    by (simp add: byte_repr_def)
  from block_write_read_roundtrip[of ?M "[1, 2, 3, 4]" ?out byte_repr, OF _ _ _ r]
  obtain w where t: "block_write byte_repr ?M ?out = Inr (?out\<lparr>written := written ?out @ w\<rparr>)"
    "\<And>M' rest. block_read byte_repr M' \<lparr>unread = w @ rest, in_fail = False\<rparr>
                 = Inr (M'\<lparr>val := Some [1, 2, 3, 4], max_len := max_len ?M,
                           allocations := allocations M' + 1\<rparr>,
                        \<lparr>unread = rest, in_fail = False\<rparr>)"
    by auto
  from t(1) t(2)[of ?M' "[]"] show ?thesis by (intro exI[of _ w]) simp
qed


subsection \<open>The Frobenius norm\<close>

lemma frobenius_loop_sum:
  assumes "ptr \<le> stop" "stop \<le> length buf"
  shows "frobenius_loop buf ptr stop s = Inr (s + (\<Sum>p = ptr..<stop. abs_square (buf ! p)))"
  using assms
proof (induction buf ptr stop s rule: frobenius_loop.induct)
  case (1 buf ptr stop norm_sqr)
  show ?case
  proof (cases "ptr = stop")
    case True
    then show ?thesis by (simp add: frobenius_loop.simps)
  next
    case False
    then have lt: "ptr < stop" "ptr < length buf" using "1.prems" by simp_all
    have "frobenius_loop buf (ptr + 1) stop (norm_sqr + abs_square (buf ! ptr))
          = Inr (norm_sqr + abs_square (buf ! ptr) + (\<Sum>p = ptr + 1..<stop. abs_square (buf ! p)))"
      using "1.IH"[OF False lt(2)] lt "1.prems" by simp
    moreover have "(\<Sum>p = ptr..<stop. abs_square (buf ! p))
                   = abs_square (buf ! ptr) + (\<Sum>p = ptr + 1..<stop. abs_square (buf ! p))"
      using lt(1) by (simp add: sum.atLeast_Suc_lessThan)
    ultimately show ?thesis
      using False lt by (subst frobenius_loop.simps) (simp add: add.assoc)
  qed
qed

lemma frobenius_norm_array:
  assumes "max_len M \<le> length (array_of (val M))"
  shows "frobenius_norm M
         = Inr (sqrt (\<Sum>p = 0..<max_len M. abs_square (array_of (val M) ! p)))"
  using frobenius_loop_sum[OF _ assms, of 0 0]
  by (simp add: frobenius_norm_def array_of_def)


lemma rowstart_telescope:
  fixes H :: "nat \<Rightarrow> 'b::comm_monoid_add"
  assumes v: "valid_pattern P" and R: "R \<le> sp_rows (sparsity_pattern P)"
  shows "(\<Sum>ci<R. \<Sum>k = rowstart (sparsity_pattern P) ! ci..<rowstart (sparsity_pattern P) ! (ci + 1). H k)
         = (\<Sum>k<rowstart (sparsity_pattern P) ! R. H k)"
  using R
proof (induction R)
  case 0
  show ?case using valid_patternD(5)[OF v] by simp
next
  case (Suc R)
  let ?rs = "rowstart (sparsity_pattern P)"
  have le: "?rs ! R \<le> ?rs ! (R + 1)" using valid_patternD(7)[OF v, of R] Suc.prems by simp
  have "(\<Sum>k<?rs ! (R + 1). H k) = (\<Sum>k<?rs ! R. H k) + (\<Sum>k = ?rs ! R..<?rs ! (R + 1). H k)"
    using sum.atLeastLessThan_concat[of 0 "?rs ! R" "?rs ! (R + 1)" H] le
    by (simp add: lessThan_atLeast0)
  then show ?case using Suc by simp
qed

lemma sum_group:
  fixes g :: "nat \<Rightarrow> 'b::comm_monoid_add"
  shows "(\<Sum>m<n. \<Sum>c<k. g (m * k + c)) = (\<Sum>q<n * k. g q)"
proof -
  have "(\<Sum>c<k. g (m * k + c)) = sum g {m * k..<m * k + k}" for m
    using sum.shift_bounds_nat_ivl[of g 0 "m * k" k]
    by (simp add: lessThan_atLeast0 add.commute)
  then show ?thesis by (simp add: sum.nat_group)
qed

lemma el_map:
  assumes v: "valid_pattern P" and i: "i < n_rows P" and j: "j < n_cols P"
    and len: "required_len P \<le> length buf" and g: "g 0 = 0"
  shows "el P (map g buf) i j = g (el P buf i j)"
proof (cases "compute_location P i j")
  case None
  then show ?thesis using g by (simp add: el_def)
next
  case (Some idx)
  from compute_location_logical(1)[OF v i j Some] len Some
  show ?thesis by (simp add: el_def)
qed

lemma stored_sum_no_padding:
  fixes w :: "'a::comm_ring_1 list"
  assumes v: "valid_pattern P"
    and dr: "n_rows P mod chunk_size P = 0" and dc: "n_cols P mod chunk_size P = 0"
  shows "(\<Sum>i<n_rows P. \<Sum>j<n_cols P. el P w i j) = (\<Sum>p<required_len P. w ! p)"
proof -
  let ?sp = "sparsity_pattern P" and ?cs = "chunk_size P"
  let ?m = "n_rows P" and ?n = "n_cols P"
  let ?rs = "rowstart ?sp" and ?R = "sp_rows ?sp"
  let ?ones = "replicate ?n (1::'a)"
  define W where "W = (\<lambda>k r. \<Sum>c<?cs. w ! (k * (?cs * ?cs) + r * ?cs + c))"
  have cs: "0 < ?cs" using valid_patternD(1)[OF v] .
  have R: "?R = ?m div ?cs" using exact_chunk_rows[OF v dr] .
  have m: "?m = ?R * ?cs" using dr R by (simp add: mod_eq_0_iff_dvd)
  have C: "sp_cols ?sp = ?n div ?cs" using exact_chunk_cols[OF v dc] .
  have row: "(\<Sum>j<?n. el P w i j) = (\<Sum>k = ?rs ! (i div ?cs)..<?rs ! (i div ?cs + 1). W k (i mod ?cs))"
    if i: "i < ?m" for i
  proof -
    have ci: "i div ?cs < ?R" using chunk_rows_cover[OF v i] .
    have "(\<Sum>j<?n. el P w i j) = (\<Sum>j\<leftarrow>[0..<?n]. el P w i j * ?ones ! j)"
      by (simp add: interv_sum_list_conv_sum_set_nat lessThan_atLeast0)
    also have "\<dots> = row_sum P w ?ones i" by (rule row_sum_logical[OF v i, symmetric])
    also have "\<dots> = (\<Sum>k = ?rs ! (i div ?cs)..<?rs ! (i div ?cs + 1). W k (i mod ?cs))"
      unfolding row_sum_def Let_def interv_sum_list_conv_sum_set_nat set_upt
    proof (rule sum.cong[OF refl])
      fix k assume "k \<in> {?rs ! (i div ?cs)..<?rs ! (i div ?cs + 1)}"
      then have k: "k < length (colnums ?sp)" using slot_lt_nnz[OF v ci, of k] by simp
      have col: "colnums ?sp ! k < ?n div ?cs" using valid_patternD(8)[OF v k] C by simp
      then have cc: "chunk_cols P (colnums ?sp ! k) = ?cs" by (simp add: chunk_cols_def)
      have b: "colnums ?sp ! k * ?cs + ?cs \<le> ?n"
        using regular_col_bound[OF v k] col by simp
      show "chunk_row_sum ?cs w (k * (?cs * ?cs)) ?ones (colnums ?sp ! k * ?cs)
              (chunk_cols P (colnums ?sp ! k)) (i mod ?cs) = W k (i mod ?cs)"
        unfolding chunk_row_sum_def cc W_def
        by (rule sum.cong[OF refl]) (use b in simp)
    qed
    finally show ?thesis .
  qed
  have "(\<Sum>i<?m. \<Sum>j<?n. el P w i j)
        = (\<Sum>i<?R * ?cs. \<Sum>k = ?rs ! (i div ?cs)..<?rs ! (i div ?cs + 1). W k (i mod ?cs))"
    using row m by simp
  also have "\<dots> = (\<Sum>ci<?R. \<Sum>r<?cs.
                      \<Sum>k = ?rs ! ((ci * ?cs + r) div ?cs)..<?rs ! ((ci * ?cs + r) div ?cs + 1).
                        W k ((ci * ?cs + r) mod ?cs))"
    by (rule sum_group[symmetric])
  also have "\<dots> = (\<Sum>ci<?R. \<Sum>r<?cs. \<Sum>k = ?rs ! ci..<?rs ! (ci + 1). W k r)"
    by (intro sum.cong[OF refl]) (simp add: div_mod_in_chunk)
  also have "\<dots> = (\<Sum>ci<?R. \<Sum>k = ?rs ! ci..<?rs ! (ci + 1). \<Sum>r<?cs. W k r)"
    by (intro sum.cong[OF refl]) (rule sum.swap)
  also have "\<dots> = (\<Sum>k<?rs ! ?R. \<Sum>r<?cs. W k r)"
    by (rule rowstart_telescope[OF v order_refl])
  also have "\<dots> = (\<Sum>k<length (colnums ?sp). \<Sum>q<?cs * ?cs. w ! (k * (?cs * ?cs) + q))"
    unfolding W_def valid_patternD(6)[OF v]
  proof (rule sum.cong[OF refl])
    fix k
    show "(\<Sum>r<?cs. \<Sum>c<?cs. w ! (k * (?cs * ?cs) + r * ?cs + c))
          = (\<Sum>q<?cs * ?cs. w ! (k * (?cs * ?cs) + q))"
      using sum_group[of "\<lambda>q. w ! (k * (?cs * ?cs) + q)" ?cs ?cs]
      by (simp add: add.assoc)
  qed
  also have "\<dots> = (\<Sum>p<length (colnums ?sp) * (?cs * ?cs). w ! p)"
    by (rule sum_group)
  finally show ?thesis
    by (simp add: required_len_def n_nonzero_elements_def mult.assoc)
qed

text \<open>
  Where the capacity is the required length of the pattern, as it is after the first
  binding of a matrix, and the chunk size divides both logical dimensions, the loop over
  the array adds up the squares of exactly the logical entries that the pattern stores.
\<close>

lemma frobenius_norm_exact_capacity:
  assumes v: "valid_pattern P"
    and dr: "n_rows P mod chunk_size P = 0" and dc: "n_cols P mod chunk_size P = 0"
    and buf: "val M = Some buf" and len: "length buf = required_len P"
    and cap: "max_len M = required_len P"
  shows "frobenius_norm M
         = Inr (sqrt (\<Sum>i<n_rows P. \<Sum>j<n_cols P. abs_square (el P buf i j)))"
proof -
  have "(\<Sum>i<n_rows P. \<Sum>j<n_cols P. abs_square (el P buf i j))
        = (\<Sum>i<n_rows P. \<Sum>j<n_cols P. el P (map abs_square buf) i j)"
    using len by (intro sum.cong[OF refl]) (simp add: el_map[OF v] abs_square_def)
  also have "\<dots> = (\<Sum>p<required_len P. map abs_square buf ! p)"
    by (rule stored_sum_no_padding[OF v dr dc])
  also have "\<dots> = (\<Sum>p = 0..<max_len M. abs_square (array_of (val M) ! p))"
    using len cap buf by (simp add: lessThan_atLeast0 array_of_def)
  finally show ?thesis
    using frobenius_norm_array[of M] buf len cap by (simp add: array_of_def)
qed

text \<open>
  C5: for a matrix without chunk padding that was bound and then populated through
  \<open>set\<close>, the square of the Frobenius norm is claimed to be the sum of the squares of
  the stored entries. The norm runs over the whole capacity \<open>max_len\<close>, and binding
  leaves the elements beyond the required length as they were. A matrix is bound to the
  \<open>3 \<times> 3\<close> pattern (capacity 8), its entry \<open>(2,2)\<close> is set to 7, it is bound to the
  \<open>2 \<times> 2\<close> pattern (chunk size 2, one chunk, no padding, required length 4) and its
  entries \<open>(0,0)\<close> and \<open>(1,1)\<close> are set to 3 and 4. The array is then
  \<open>[3, 0, 0, 4, 7, 0, 0, 0]\<close>: the norm is \<open>sqrt 74\<close>, while the squares of the
  logical entries add up to 25.
\<close>

theorem frobenius_norm_counts_stale_tail:
  "bind_err (reinit example_env 0 ChunkSparseMatrix_default) (\<lambda>M1.
   bind_err (set_entry example_env 2 2 7 M1) (\<lambda>M2.
   bind_err (reinit example_env 1 M2) (\<lambda>M3.
   bind_err (set_entry example_env 0 0 3 M3) (\<lambda>M4.
   bind_err (set_entry example_env 1 1 4 M4) (\<lambda>M5.
   bind_err (frobenius_norm M5) (\<lambda>norm.
     Inr (cols M5, val M5, max_len M5, norm)))))))
   = Inr (Some 1, Some [3, 0, 0, 4, 7, 0, 0, 0], 8, sqrt 74)
   \<and> sqrt (\<Sum>i\<leftarrow>[0..<n_rows pattern_2x2]. \<Sum>j\<leftarrow>[0..<n_cols pattern_2x2].
         abs_square (el pattern_2x2 [3, 0, 0, 4, 7, 0, 0, 0] i j)) = sqrt 25
   \<and> sqrt 74 \<noteq> sqrt 25"
proof -
  let ?D = "ChunkSparseMatrix_default :: real ChunkSparseMatrix"
  let ?M = "\<lparr>cols = Some 1, val = Some [3, 0, 0, 4, 7, 0, 0, 0 :: real], max_len = 8,
             allocations = 1\<rparr>"
  have s1: "reinit example_env 0 ?D
             = Inr \<lparr>cols = Some 0, val = Some [0, 0, 0, 0, 0, 0, 0, 0], max_len = 8,
                     allocations = 1\<rparr>"
    by (rule reinit_3x3_default)
  have s2: "set_entry example_env 2 2 7
              \<lparr>cols = Some 0, val = Some [0, 0, 0, 0, 0, 0, 0, 0 :: real], max_len = 8,
                 allocations = 1\<rparr>
            = Inr \<lparr>cols = Some 0, val = Some [0, 0, 0, 0, 7, 0, 0, 0], max_len = 8,
                    allocations = 1\<rparr>"
    by code_simp
  have s3: "reinit example_env 1
              \<lparr>cols = Some 0, val = Some [0, 0, 0, 0, 7, 0, 0, 0 :: real], max_len = 8,
                 allocations = 1\<rparr>
            = Inr \<lparr>cols = Some 1, val = Some [0, 0, 0, 0, 7, 0, 0, 0], max_len = 8,
                    allocations = 1\<rparr>"
    by (rule reinit_2x2_capacity_8)
  have s4: "set_entry example_env 0 0 3
              \<lparr>cols = Some 1, val = Some [0, 0, 0, 0, 7, 0, 0, 0 :: real], max_len = 8,
                 allocations = 1\<rparr>
            = Inr \<lparr>cols = Some 1, val = Some [3, 0, 0, 0, 7, 0, 0, 0], max_len = 8,
                    allocations = 1\<rparr>"
    by code_simp
  have s5: "set_entry example_env 1 1 4
              \<lparr>cols = Some 1, val = Some [3, 0, 0, 0, 7, 0, 0, 0 :: real], max_len = 8,
                 allocations = 1\<rparr>
            = Inr ?M"
    by code_simp
  have "frobenius_norm ?M = Inr (sqrt (\<Sum>p = 0..<8. abs_square ([3, 0, 0, 4, 7, 0, 0, 0 :: real] ! p)))"
    using frobenius_norm_array[of ?M] by (simp add: array_of_def)
  also have "(\<Sum>p = 0..<8. abs_square ([3, 0, 0, 4, 7, 0, 0, 0 :: real] ! p)) = 74"
    by (simp add: abs_square_def sum.atLeast_Suc_lessThan eval_nat_numeral)
  finally have norm: "frobenius_norm ?M = Inr (sqrt 74)" .
  have logical: "(\<Sum>i\<leftarrow>[0..<n_rows pattern_2x2]. \<Sum>j\<leftarrow>[0..<n_cols pattern_2x2].
         abs_square (el pattern_2x2 [3, 0, 0, 4, 7, 0, 0, 0 :: real] i j)) = 25"
    by code_simp
  have differ: "sqrt 74 \<noteq> sqrt 25"
    by (simp only: real_sqrt_eq_iff)
  have run: "bind_err (reinit example_env 0 ?D) (\<lambda>M1.
             bind_err (set_entry example_env 2 2 7 M1) (\<lambda>M2.
             bind_err (reinit example_env 1 M2) (\<lambda>M3.
             bind_err (set_entry example_env 0 0 3 M3) (\<lambda>M4.
             bind_err (set_entry example_env 1 1 4 M4) (\<lambda>M5.
             bind_err (frobenius_norm M5) (\<lambda>norm.
               Inr (cols M5, val M5, max_len M5, norm)))))))
             = Inr (Some 1, Some [3, 0, 0, 4, 7, 0, 0, 0], 8, sqrt 74)"
    by (simp only: s1 s2 s3 s4 s5 norm bind_err_simps) simp
  show ?thesis using run logical differ by (simp only:) simp
qed

end
